theory Spec2Isabelle
  imports Complex_Main
begin

section \<open>Drawing surfaces\<close>

text \<open>
  A canvas is modelled by its dimensions, the fill style of its 2D context and the list of
  drawing calls made on it since its bitmap was last reset, oldest first. JavaScript
  numbers are modelled as exact reals: rounding of doubles and anti-aliasing are not
  part of the model. Colours are the CSS colour strings of the source and are taken to
  be opaque; a pixel is \<open>None\<close> when nothing has been painted on it (alpha zero).
  Widths, heights, the pixel size and the margin are natural numbers.
\<close>

type_synonym colour = string

type_synonym point = "real \<times> real"

record image =
  iwidth :: nat
  iheight :: nat
  ibitmap :: "point \<Rightarrow> colour option"

datatype shape =
    Rect real real real real
  | Circle real real real
  | RoundedRect real real real real real

datatype call =
    ClearRect real real real real
  | Fill colour shape
  | DrawImage image real real real real
  | PutImageData image real real

record canvas =
  width :: nat
  height :: nat
  fillStyle :: colour
  calls :: "call list"

text \<open>Assigning \<open>canvas.width\<close> or \<open>canvas.height\<close> resets the bitmap and the context state.\<close>

definition set_width :: "nat \<Rightarrow> canvas \<Rightarrow> canvas" where
  "set_width w c = c\<lparr>width := w, fillStyle := ''#000000'', calls := []\<rparr>"

definition set_height :: "nat \<Rightarrow> canvas \<Rightarrow> canvas" where
  "set_height h c = c\<lparr>height := h, fillStyle := ''#000000'', calls := []\<rparr>"

definition createElement_canvas :: canvas where
  "createElement_canvas = \<lparr>width = 300, height = 150, fillStyle = ''#000000'', calls = []\<rparr>"

definition clearRect :: "real \<Rightarrow> real \<Rightarrow> real \<Rightarrow> real \<Rightarrow> canvas \<Rightarrow> canvas" where
  "clearRect x y w h c = c\<lparr>calls := calls c @ [ClearRect x y w h]\<rparr>"

definition fillRect :: "real \<Rightarrow> real \<Rightarrow> real \<Rightarrow> real \<Rightarrow> canvas \<Rightarrow> canvas" where
  "fillRect x y w h c = c\<lparr>calls := calls c @ [Fill (fillStyle c) (Rect x y w h)]\<rparr>"

text \<open>\<open>beginPath(); arc(cx, cy, r, 0, 2 * Math.PI); fill()\<close>\<close>

definition fillArc :: "real \<Rightarrow> real \<Rightarrow> real \<Rightarrow> canvas \<Rightarrow> canvas" where
  "fillArc cx cy r c = c\<lparr>calls := calls c @ [Fill (fillStyle c) (Circle cx cy r)]\<rparr>"

text \<open>The path of \<open>drawRoundedRect\<close>: four edges joined by \<open>arcTo\<close> corners, then \<open>fill()\<close>.\<close>

definition drawRoundedRect :: "real \<Rightarrow> real \<Rightarrow> real \<Rightarrow> real \<Rightarrow> real \<Rightarrow> canvas \<Rightarrow> canvas" where
  "drawRoundedRect x y w h radius c =
     c\<lparr>calls := calls c @ [Fill (fillStyle c) (RoundedRect x y w h radius)]\<rparr>"

subsection \<open>Pixels\<close>

text \<open>
  A rectangle covers the points of its half-open box, so that two rectangles that abut
  share no point; a disc covers its closed interior. The rounded rectangle is the box
  without the parts of its corner squares that lie outside the corner arcs. A later call
  paints over an earlier one.
\<close>

definition clampTo :: "real \<Rightarrow> real \<Rightarrow> real \<Rightarrow> real" where
  "clampTo lo hi v = (if v < lo then lo else if hi < v then hi else v)"

fun covers :: "shape \<Rightarrow> point \<Rightarrow> bool" where
  "covers (Rect x y w h) (px, py) = (x \<le> px \<and> px < x + w \<and> y \<le> py \<and> py < y + h)"
| "covers (Circle cx cy r) (px, py) = ((px - cx)\<^sup>2 + (py - cy)\<^sup>2 \<le> r\<^sup>2)"
| "covers (RoundedRect x y w h r) (px, py) =
     (x \<le> px \<and> px < x + w \<and> y \<le> py \<and> py < y + h \<and>
      (px - clampTo (x + r) (x + w - r) px)\<^sup>2 + (py - clampTo (y + r) (y + h - r) py)\<^sup>2 \<le> r\<^sup>2)"

fun paint :: "call \<Rightarrow> point \<Rightarrow> colour option \<Rightarrow> colour option" where
  "paint (ClearRect x y w h) p old = (if covers (Rect x y w h) p then None else old)"
| "paint (Fill col s) p old = (if covers s p then Some col else old)"
| "paint (DrawImage img dx dy dw dh) (px, py) old =
     (if covers (Rect dx dy dw dh) (px, py) then
        (case ibitmap img ((px - dx) * real (iwidth img) / dw, (py - dy) * real (iheight img) / dh) of
           None \<Rightarrow> old
         | Some col \<Rightarrow> Some col)
      else old)"
| "paint (PutImageData img dx dy) (px, py) old =
     (if covers (Rect dx dy (real (iwidth img)) (real (iheight img))) (px, py)
      then ibitmap img (px - dx, py - dy) else old)"

definition onSurface :: "canvas \<Rightarrow> point \<Rightarrow> bool" where
  "onSurface c p = covers (Rect 0 0 (real (width c)) (real (height c))) p"

definition pixels :: "call list \<Rightarrow> point \<Rightarrow> colour option" where
  "pixels ks p = fold (\<lambda>k old. paint k p old) ks None"

definition pixelAt :: "canvas \<Rightarrow> point \<Rightarrow> colour option" where
  "pixelAt c p = (if onSurface c p then pixels (calls c) p else None)"

definition snapshot :: "canvas \<Rightarrow> image" where
  "snapshot c = \<lparr>iwidth = width c, iheight = height c, ibitmap = pixelAt c\<rparr>"

section \<open>The encoding library\<close>

text \<open>
  The module matrix comes from the external \<open>qrcode-generator\<close> library. A matrix answers
  \<open>getModuleCount()\<close> and \<open>isDark(row, col)\<close>. The library is a parameter of the model:
  \<open>qrcode e typeNumber errorCorrection text\<close> stands for
  \<open>qr = qrcode(typeNumber, errorCorrection); qr.addData(text); qr.make()\<close> and is either
  the value the library throws or the finished matrix.
\<close>

record qr =
  getModuleCount :: nat
  isDark :: "nat \<Rightarrow> nat \<Rightarrow> bool"

text \<open>
  The other collaborators are parameters as well: the browser's image loader
  (\<open>loadImage\<close>: the loaded image, or the \<open>onerror\<close> event), canvas serialisation
  (\<open>toDataURL\<close>), the GIF decoder \<open>gifuct-js\<close> (\<open>hasGifuct\<close> is \<open>window.gifuct\<close>;
  \<open>gifuct_frames\<close> stands for \<open>atob\<close>, \<open>parseGIF\<close> and \<open>decompressFrames\<close> on the
  base64 payload and is what they throw or the decoded frames), the GIF encoder \<open>gif.js\<close>
  (\<open>hasGIF\<close> is \<open>window.GIF\<close>; \<open>gif_render\<close> is the outcome of rendering the frames that
  were added) and the \<open>FileReader\<close> behind \<open>blobToDataURL\<close>. The encoder is taken to end
  with one of its two events or an exception.
\<close>

record raw_frame =
  patch :: image
  raw_delay :: "int option"

record gif_frame =
  fimage :: image
  fdelay :: int

datatype blob = Blob "gif_frame list"

datatype encoder_outcome = Finished | ErrorEvent string | Threw string

record env =
  qrcode :: "nat \<Rightarrow> string \<Rightarrow> string \<Rightarrow> string + qr"
  loadImage :: "string \<Rightarrow> string + image"
  toDataURL :: "canvas \<Rightarrow> string"
  hasGifuct :: bool
  gifuct_frames :: "string \<Rightarrow> string + raw_frame list"
  hasGIF :: bool
  gif_render :: "gif_frame list \<Rightarrow> encoder_outcome"
  readAsDataURL :: "blob \<Rightarrow> string + string"

datatype parse_error =
    GifuctNotLoaded
  | NotAString
  | InvalidDataURL
  | GifuctThrew string
  | NoFramesFound

datatype error =
    TextRequired
  | QrcodeThrew string
  | OverlayInputsRequired
  | InvalidStateError
  | LoadImageFailed string
  | GifLibrariesNotLoaded
  | ParseGIFFailed parse_error
  | GifJsNotLoaded
  | NoCanvasesProvided
  | GifEncodingFailed string
  | CreateGifFailed string
  | BlobConversionFailed string

text \<open>The encoder accepts a text at a type number when \<open>make()\<close> returns without throwing.\<close>

definition accepts :: "env \<Rightarrow> nat \<Rightarrow> string \<Rightarrow> string \<Rightarrow> bool" where
  "accepts e typeNumber ec str = (case qrcode e typeNumber ec str of Inl thrown \<Rightarrow> False | Inr q \<Rightarrow> True)"

section \<open>QRGenerator\<close>

text \<open>
  The generator owns one canvas (\<open>this.canvas\<close>). \<open>encoderCalls\<close> records the type numbers
  handed to the encoding library so far, oldest first. The options are the ones
  \<open>getConfig\<close> supplies, all present except possibly the text; \<open>text_opt\<close> and \<open>size_px\<close>
  stand for the fields \<open>text\<close> and \<open>size\<close>. The quotient \<open>size / totalModules\<close> is used
  only inside the loops over the modules, which do not run when there are no modules, and
  \<open>isDark\<close> is asked only for cells of the matrix.
\<close>

record QRGenerator =
  canvas :: canvas
  encoderCalls :: "nat list"

record options =
  text_opt :: "string option"
  size_px :: nat
  errorCorrection :: string
  style :: string
  foregroundColor :: colour
  backgroundColor :: colour
  transparentBackground :: bool
  margin :: nat

function calculateTypeNumber_from ::
  "env \<Rightarrow> string \<Rightarrow> string \<Rightarrow> nat \<Rightarrow> nat list \<Rightarrow> nat \<times> nat list" where
  "calculateTypeNumber_from e txt ec typeNumber tried =
     (if typeNumber \<le> 40 then
        (case qrcode e typeNumber ec txt of
           Inr q \<Rightarrow> (typeNumber, tried @ [typeNumber])
         | Inl thrown \<Rightarrow> calculateTypeNumber_from e txt ec (typeNumber + 1) (tried @ [typeNumber]))
      else (10, tried))"
  by pat_completeness auto
termination
  by (relation "measure (\<lambda>(e, txt, ec, typeNumber, tried). 41 - typeNumber)") auto

declare calculateTypeNumber_from.simps [simp del]

definition calculateTypeNumber :: "env \<Rightarrow> string \<Rightarrow> string \<Rightarrow> nat list \<Rightarrow> nat \<times> nat list" where
  "calculateTypeNumber e txt ec tried = calculateTypeNumber_from e txt ec 1 tried"

definition renderSquares :: "qr \<Rightarrow> real \<Rightarrow> nat \<Rightarrow> canvas \<Rightarrow> canvas" where
  "renderSquares q cellSize mrg c =
     fold (\<lambda>row. fold (\<lambda>col c'.
         if isDark q row col
         then fillRect ((real col + real mrg) * cellSize) ((real row + real mrg) * cellSize)
                cellSize cellSize c'
         else c') [0..<getModuleCount q]) [0..<getModuleCount q] c"

definition renderDots :: "qr \<Rightarrow> real \<Rightarrow> nat \<Rightarrow> canvas \<Rightarrow> canvas" where
  "renderDots q cellSize mrg c =
     (let radius = cellSize * 0.45 in
      fold (\<lambda>row. fold (\<lambda>col c'.
         if isDark q row col
         then fillArc ((real col + real mrg + 0.5) * cellSize)
                ((real row + real mrg + 0.5) * cellSize) radius c'
         else c') [0..<getModuleCount q]) [0..<getModuleCount q] c)"

definition renderRounded :: "qr \<Rightarrow> real \<Rightarrow> nat \<Rightarrow> canvas \<Rightarrow> canvas" where
  "renderRounded q cellSize mrg c =
     (let borderRadius = cellSize * 0.3 in
      fold (\<lambda>row. fold (\<lambda>col c'.
         if isDark q row col
         then drawRoundedRect ((real col + real mrg) * cellSize) ((real row + real mrg) * cellSize)
                cellSize cellSize borderRadius c'
         else c') [0..<getModuleCount q]) [0..<getModuleCount q] c)"

definition cellSizeOf :: "qr \<Rightarrow> options \<Rightarrow> real" where
  "cellSizeOf q opts = real (size_px opts) / real (getModuleCount q + margin opts * 2)"

definition renderToCanvas :: "qr \<Rightarrow> options \<Rightarrow> canvas \<Rightarrow> canvas" where
  "renderToCanvas q opts c0 =
     (let sz = real (size_px opts);
          cellSize = cellSizeOf q opts;
          c1 = set_height (size_px opts) (set_width (size_px opts) c0);
          c2 = clearRect 0 0 sz sz c1;
          c3 = (if \<not> transparentBackground opts
                then fillRect 0 0 sz sz (c2\<lparr>fillStyle := backgroundColor opts\<rparr>)
                else c2);
          c4 = c3\<lparr>fillStyle := foregroundColor opts\<rparr>
      in if style opts = ''dots'' then renderDots q cellSize (margin opts) c4
         else if style opts = ''rounded'' then renderRounded q cellSize (margin opts) c4
         else renderSquares q cellSize (margin opts) c4)"

definition generate :: "env \<Rightarrow> options \<Rightarrow> QRGenerator \<Rightarrow> (error + canvas) \<times> QRGenerator" where
  "generate e opts g =
     (case text_opt opts of
        None \<Rightarrow> (Inl TextRequired, g)
      | Some txt \<Rightarrow>
          if txt = [] then (Inl TextRequired, g)
          else
            (case calculateTypeNumber e txt (errorCorrection opts) (encoderCalls g) of
               (typeNumber, tried) \<Rightarrow>
                 (case qrcode e typeNumber (errorCorrection opts) txt of
                    Inl thrown \<Rightarrow> (Inl (QrcodeThrew thrown), g\<lparr>encoderCalls := tried @ [typeNumber]\<rparr>)
                  | Inr q \<Rightarrow>
                      (let c = renderToCanvas q opts (canvas g)
                       in (Inr c, g\<lparr>canvas := c, encoderCalls := tried @ [typeNumber]\<rparr>)))))"

subsection \<open>Module geometry\<close>

text \<open>
  The cells the nested \<open>row\<close>/\<open>col\<close> loops draw, in loop order, and the shape each
  style draws for a cell; \<open>cellOf\<close> is the grid index of a pixel coordinate.
\<close>

definition darkCells :: "qr \<Rightarrow> (nat \<times> nat) list" where
  "darkCells q =
     [(row, col). row \<leftarrow> [0..<getModuleCount q], col \<leftarrow> [0..<getModuleCount q], isDark q row col]"

definition squareAt :: "real \<Rightarrow> nat \<Rightarrow> nat \<Rightarrow> nat \<Rightarrow> shape" where
  "squareAt cellSize mrg row col =
     Rect ((real col + real mrg) * cellSize) ((real row + real mrg) * cellSize) cellSize cellSize"

definition dotAt :: "real \<Rightarrow> nat \<Rightarrow> nat \<Rightarrow> nat \<Rightarrow> shape" where
  "dotAt cellSize mrg row col =
     Circle ((real col + real mrg + 0.5) * cellSize) ((real row + real mrg + 0.5) * cellSize)
       (cellSize * 0.45)"

definition roundedAt :: "real \<Rightarrow> nat \<Rightarrow> nat \<Rightarrow> nat \<Rightarrow> shape" where
  "roundedAt cellSize mrg row col =
     RoundedRect ((real col + real mrg) * cellSize) ((real row + real mrg) * cellSize)
       cellSize cellSize (cellSize * 0.3)"

definition moduleShape :: "string \<Rightarrow> real \<Rightarrow> nat \<Rightarrow> nat \<Rightarrow> nat \<Rightarrow> shape" where
  "moduleShape st cellSize mrg row col =
     (if st = ''dots'' then dotAt cellSize mrg row col
      else if st = ''rounded'' then roundedAt cellSize mrg row col
      else squareAt cellSize mrg row col)"


section \<open>ImageProcessor\<close>

text \<open>
  Canvases are objects: the generator's canvas and the elements made by
  \<open>document.createElement('canvas')\<close> are held by reference, so that it can be said which
  of them a call changes. The record also carries the state of \<open>QRCodeApp\<close> and what the
  \<open>UIController\<close> shows. The model follows the revision of \<open>ImageProcessor\<close> and of
  \<open>QRCodeApp\<close> that has the animated GIF methods: there \<open>addLogoOverlay\<close> draws on a
  canvas of its own making and hands its context to \<open>drawLogoBackground\<close> and \<open>drawLogo\<close>.
  Suspension at \<open>await\<close> is not modelled: one call runs to its end.
\<close>

datatype canvas_ref = GeneratorCanvas | Element nat

datatype display = Placeholder | ShowsCanvas canvas | ShowsGIF string

datatype loading_message = ProcessingGIF | ProcessingFrame nat nat | CreatingGIF

datatype notice =
    FailedToAddLogo
  | FailedToProcessAnimatedGIF error
  | FailedToGenerate
  | InvalidInput string

record world =
  qrGenerator :: QRGenerator
  elements :: "nat \<Rightarrow> canvas"
  nextElement :: nat
  state_currentLogo :: "string option"
  state_isAnimatedGIF :: bool
  state_animatedGIFBlob :: "blob option"
  ui_currentCanvas :: "canvas_ref option"
  ui_displayed :: display
  ui_errors :: "notice list"
  ui_loading :: bool
  ui_messages :: "loading_message list"

fun deref :: "world \<Rightarrow> canvas_ref \<Rightarrow> canvas" where
  "deref w GeneratorCanvas = canvas (qrGenerator w)"
| "deref w (Element i) = elements w i"

fun allocated :: "world \<Rightarrow> canvas_ref \<Rightarrow> bool" where
  "allocated w GeneratorCanvas = True"
| "allocated w (Element i) = (i < nextElement w)"

definition createElement :: "world \<Rightarrow> nat \<times> world" where
  "createElement w =
     (nextElement w,
      w\<lparr>elements := (elements w)(nextElement w := createElement_canvas),
        nextElement := nextElement w + 1\<rparr>)"

definition on_element :: "nat \<Rightarrow> (canvas \<Rightarrow> canvas) \<Rightarrow> world \<Rightarrow> world" where
  "on_element i f w = w\<lparr>elements := (elements w)(i := f (elements w i))\<rparr>"

definition drawImage :: "image \<Rightarrow> real \<Rightarrow> real \<Rightarrow> real \<Rightarrow> real \<Rightarrow> canvas \<Rightarrow> canvas" where
  "drawImage img dx dy dw dh c = c\<lparr>calls := calls c @ [DrawImage img dx dy dw dh]\<rparr>"

text \<open>
  \<open>drawImage(canvas, 0, 0)\<close> draws the source canvas at its own size and throws when the
  source canvas has a zero dimension.
\<close>

definition drawCanvas :: "canvas \<Rightarrow> canvas \<Rightarrow> error + canvas" where
  "drawCanvas src c =
     (if width src = 0 \<or> height src = 0 then Inl InvalidStateError
      else Inr (drawImage (snapshot src) 0 0 (real (width src)) (real (height src)) c))"

definition putImageData :: "image \<Rightarrow> real \<Rightarrow> real \<Rightarrow> canvas \<Rightarrow> canvas" where
  "putImageData img dx dy c = c\<lparr>calls := calls c @ [PutImageData img dx dy]\<rparr>"

text \<open>A string or a reference is falsy when it is \<open>null\<close>, \<open>undefined\<close> or the empty string.\<close>

definition truthy :: "string option \<Rightarrow> bool" where
  "truthy s = (case s of None \<Rightarrow> False | Some v \<Rightarrow> v \<noteq> [])"

record overlay_options =
  logoSizePercent :: real
  padding :: real
  overlayBackgroundColor :: colour
  patternStyle :: string

text \<open>The rounded background path of \<open>drawLogoBackground\<close> is the rounded rectangle of
  \<open>drawRoundedRect\<close> on the padded box; all three branches fill with \<open>backgroundColor\<close>.\<close>

definition drawLogoBackground ::
  "real \<Rightarrow> real \<Rightarrow> real \<Rightarrow> real \<Rightarrow> colour \<Rightarrow> string \<Rightarrow> canvas \<Rightarrow> canvas" where
  "drawLogoBackground x y sz pad bg pstyle c0 =
     (let c = c0\<lparr>fillStyle := bg\<rparr> in
      if pstyle = ''dots'' then fillArc (x + sz / 2) (y + sz / 2) ((sz + pad * 2) / 2) c
      else if pstyle = ''rounded''
      then drawRoundedRect (x - pad) (y - pad) (sz + pad * 2) (sz + pad * 2) ((sz + pad * 2) * 0.2) c
      else fillRect (x - pad) (y - pad) (sz + pad * 2) (sz + pad * 2) c)"

text \<open>
  \<open>drawLogo\<close>. The quotient \<open>image.width / image.height\<close> of a double is \<open>Infinity\<close> for a
  zero height and a positive width, and \<open>NaN\<close> for \<open>0 / 0\<close>; the two cases are written out,
  since neither comparison holds for \<open>NaN\<close> and \<open>maxSize / Infinity\<close> is 0.
\<close>

definition drawLogo :: "image \<Rightarrow> real \<Rightarrow> real \<Rightarrow> real \<Rightarrow> canvas \<Rightarrow> canvas" where
  "drawLogo img x y maxSize c =
     (let aspectRatio = real (iwidth img) / real (iheight img);
          w = (if iheight img = 0 then maxSize
               else if aspectRatio > 1 then maxSize
               else if aspectRatio < 1 then maxSize * aspectRatio
               else maxSize);
          h = (if iheight img = 0 then (if iwidth img = 0 then maxSize else 0)
               else if aspectRatio > 1 then maxSize / aspectRatio
               else maxSize);
          offsetX = (maxSize - w) / 2;
          offsetY = (maxSize - h) / 2
      in drawImage img (x + offsetX) (y + offsetY) w h c)"

definition addLogoOverlay ::
  "env \<Rightarrow> canvas_ref option \<Rightarrow> string option \<Rightarrow> overlay_options \<Rightarrow> world
     \<Rightarrow> (error + canvas_ref) \<times> world" where
  "addLogoOverlay e qrCanvas logoSrc oo w =
     (case qrCanvas of
        None \<Rightarrow> (Inl OverlayInputsRequired, w)
      | Some base \<Rightarrow>
          if \<not> truthy logoSrc then (Inl OverlayInputsRequired, w)
          else
            (case createElement w of
               (out, w1) \<Rightarrow>
                 (let src = deref w1 base;
                      w2 = on_element out (set_height (height src)) (on_element out (set_width (width src)) w1)
                  in case drawCanvas src (elements w2 out) of
                       Inl err \<Rightarrow> (Inl err, w2)
                     | Inr drawn \<Rightarrow>
                         (let w3 = on_element out (\<lambda>c. drawn) w2 in
                          case loadImage e (the logoSrc) of
                            Inl msg \<Rightarrow> (Inl (LoadImageFailed msg), w3)
                          | Inr logoImage \<Rightarrow>
                              (let logoSize = real (width src) * logoSizePercent oo;
                                   logoX = (real (width src) - logoSize) / 2;
                                   logoY = (real (height src) - logoSize) / 2
                               in (Inr (Element out),
                                   on_element out
                                     (\<lambda>c. drawLogo logoImage logoX logoY logoSize
                                        (drawLogoBackground logoX logoY logoSize (padding oo)
                                           (overlayBackgroundColor oo) (patternStyle oo) c)) w3))))))"

text \<open>\<open>dataURL.split(',')\<close> and its element 1, the base64 payload.\<close>

fun split_comma :: "string \<Rightarrow> string list" where
  "split_comma [] = [[]]"
| "split_comma (c # cs) =
     (if c = CHR '','' then [] # split_comma cs
      else (case split_comma cs of [] \<Rightarrow> [[c]] | p # ps \<Rightarrow> (c # p) # ps))"

definition base64_of :: "string \<Rightarrow> string option" where
  "base64_of dataURL = (case split_comma dataURL of _ # b # _ \<Rightarrow> Some b | _ \<Rightarrow> None)"

text \<open>\<open>v || d\<close> on a number that may be \<open>undefined\<close>.\<close>

definition or_default :: "int option \<Rightarrow> int \<Rightarrow> int" where
  "or_default v d = (case v of None \<Rightarrow> d | Some n \<Rightarrow> if n = 0 then d else n)"

text \<open>A processed frame; its \<open>dims\<close> field repeats the dimensions of \<open>imageData\<close>.\<close>

record frame =
  imageData :: image
  delay :: int

definition parseGIF :: "env \<Rightarrow> string option \<Rightarrow> error + frame list" where
  "parseGIF e dataURL =
     (case (if \<not> hasGifuct e then Inl GifuctNotLoaded
            else (case dataURL of
                    None \<Rightarrow> Inl NotAString
                  | Some url \<Rightarrow>
                      if \<not> truthy (base64_of url) then Inl InvalidDataURL
                      else (case gifuct_frames e (the (base64_of url)) of
                              Inl msg \<Rightarrow> Inl (GifuctThrew msg)
                            | Inr frames \<Rightarrow>
                                if frames = [] then Inl NoFramesFound
                                else Inr (map (\<lambda>f. \<lparr>imageData = patch f,
                                                     delay = or_default (raw_delay f) 100\<rparr>)
                                            frames)))) of
        Inl err \<Rightarrow> Inl (ParseGIFFailed err)
      | Inr processedFrames \<Rightarrow> Inr processedFrames)"

definition imageDataToCanvas :: "image \<Rightarrow> world \<Rightarrow> canvas_ref \<times> world" where
  "imageDataToCanvas img w =
     (case createElement w of
        (i, w1) \<Rightarrow>
          (Element i,
           on_element i (putImageData img 0 0)
             (on_element i (set_height (iheight img)) (on_element i (set_width (iwidth img)) w1))))"

text \<open>\<open>delays[index]\<close>: \<open>undefined\<close> beyond the end of the array.\<close>

definition delay_at :: "int option list \<Rightarrow> nat \<Rightarrow> int option" where
  "delay_at delays index = (if index < length delays then delays ! index else None)"

definition addedFrames :: "world \<Rightarrow> canvas_ref list \<Rightarrow> int option list \<Rightarrow> gif_frame list" where
  "addedFrames w canvases delays =
     map (\<lambda>index. \<lparr>fimage = snapshot (deref w (canvases ! index)),
                    fdelay = or_default (delay_at delays index) 100\<rparr>) [0..<length canvases]"

definition createAnimatedGIF ::
  "env \<Rightarrow> world \<Rightarrow> canvas_ref list \<Rightarrow> int option list \<Rightarrow> error + blob" where
  "createAnimatedGIF e w canvases delays =
     (if \<not> hasGIF e then Inl GifJsNotLoaded
      else if canvases = [] then Inl NoCanvasesProvided
      else (case gif_render e (addedFrames w canvases delays) of
              Finished \<Rightarrow> Inr (Blob (addedFrames w canvases delays))
            | ErrorEvent msg \<Rightarrow> Inl (GifEncodingFailed msg)
            | Threw msg \<Rightarrow> Inl (CreateGifFailed msg)))"

definition blobToDataURL :: "env \<Rightarrow> blob \<Rightarrow> error + string" where
  "blobToDataURL e b =
     (case readAsDataURL e b of Inl msg \<Rightarrow> Inl (BlobConversionFailed msg) | Inr url \<Rightarrow> Inr url)"

section \<open>UIController\<close>

definition showError :: "notice \<Rightarrow> world \<Rightarrow> world" where
  "showError n w = w\<lparr>ui_errors := ui_errors w @ [n]\<rparr>"

definition showLoading :: "world \<Rightarrow> world" where
  "showLoading w = w\<lparr>ui_loading := True\<rparr>"

definition hideLoading :: "world \<Rightarrow> world" where
  "hideLoading w = w\<lparr>ui_loading := False\<rparr>"

text \<open>
  \<open>displayQR\<close> records the canvas, sizes the display canvas like it, clears it and copies
  the canvas onto it; the copy throws for a canvas with a zero dimension.
\<close>

definition displayQR :: "canvas_ref option \<Rightarrow> world \<Rightarrow> (error + unit) \<times> world" where
  "displayQR cnv w =
     (case cnv of
        None \<Rightarrow> (Inr (), w)
      | Some r \<Rightarrow>
          (let src = deref w r;
               shown = clearRect 0 0 (real (width src)) (real (height src))
                         (set_height (height src) (set_width (width src) createElement_canvas));
               w1 = w\<lparr>ui_currentCanvas := Some r\<rparr>
           in case drawCanvas src shown of
                Inl err \<Rightarrow> (Inl err, w1\<lparr>ui_displayed := ShowsCanvas shown\<rparr>)
              | Inr drawn \<Rightarrow> (Inr (), w1\<lparr>ui_displayed := ShowsCanvas drawn\<rparr>)))"

text \<open>
  Modelled from the spec: \<open>UIController.showLoadingMessage\<close>, which \<open>QRCodeApp\<close> calls and
  which is not part of the available source. It reports progress to the user and is taken
  not to throw.
\<close>

definition showLoadingMessage :: "loading_message \<Rightarrow> world \<Rightarrow> world" where
  "showLoadingMessage m w = w\<lparr>ui_messages := ui_messages w @ [m]\<rparr>"

text \<open>
  Modelled from the spec: \<open>UIController.displayAnimatedGIF\<close>, which \<open>QRCodeApp\<close> calls and
  which is not part of the available source. It shows the encoded animation in place of
  what the page showed before and is taken not to throw.
\<close>

definition displayAnimatedGIF :: "string \<Rightarrow> world \<Rightarrow> world" where
  "displayAnimatedGIF gifDataURL w = w\<lparr>ui_displayed := ShowsGIF gifDataURL\<rparr>"

definition validateInput :: "options \<Rightarrow> string option" where
  "validateInput config =
     (if \<not> truthy (text_opt config)
      then Some ''Please enter a URL or text to generate a QR code''
      else if length (the (text_opt config)) > 2953
      then Some ''Text is too long. Maximum 2953 characters for QR codes.''
      else None)"

section \<open>QRCodeApp\<close>

text \<open>\<open>this.qrGenerator.generate(config)\<close> returns the generator's own canvas.\<close>

definition qrGenerator_generate :: "env \<Rightarrow> options \<Rightarrow> world \<Rightarrow> (error + canvas_ref) \<times> world" where
  "qrGenerator_generate e config w =
     (case generate e config (qrGenerator w) of
        (Inl err, g) \<Rightarrow> (Inl err, w\<lparr>qrGenerator := g\<rparr>)
      | (Inr c, g) \<Rightarrow> (Inr GeneratorCanvas, w\<lparr>qrGenerator := g\<rparr>))"

definition logoOverlayOptions :: "options \<Rightarrow> overlay_options" where
  "logoOverlayOptions config =
     \<lparr>logoSizePercent = 0.25, padding = 10, overlayBackgroundColor = ''#FFFFFF'',
      patternStyle = style config\<rparr>"

definition generateStaticQR :: "env \<Rightarrow> options \<Rightarrow> world \<Rightarrow> (error + unit) \<times> world" where
  "generateStaticQR e config w =
     (case qrGenerator_generate e config w of
        (Inl err, w1) \<Rightarrow> (Inl err, w1)
      | (Inr qrCanvas, w1) \<Rightarrow>
          (case (if truthy (state_currentLogo w1)
                 then (case addLogoOverlay e (Some qrCanvas) (state_currentLogo w1)
                              (logoOverlayOptions config) w1 of
                         (Inr overlaid, w2) \<Rightarrow> (overlaid, w2)
                       | (Inl err, w2) \<Rightarrow> (qrCanvas, showError FailedToAddLogo w2))
                 else (qrCanvas, w1)) of
             (finalCanvas, w3) \<Rightarrow>
               (case displayQR (Some finalCanvas) w3 of
                  (Inl err, w4) \<Rightarrow> (Inl err, w4)
                | (Inr u, w4) \<Rightarrow> (Inr (), w4\<lparr>state_animatedGIFBlob := None\<rparr>))))"

text \<open>The per-frame loop of \<open>generateAnimatedQR\<close>; \<open>i\<close> is the loop index and \<open>n\<close> is
  \<open>frames.length\<close>.\<close>

fun processFrames ::
  "env \<Rightarrow> options \<Rightarrow> nat \<Rightarrow> nat \<Rightarrow> frame list \<Rightarrow> canvas_ref list \<times> int option list \<Rightarrow> world
     \<Rightarrow> (error + canvas_ref list \<times> int option list) \<times> world" where
  "processFrames e config i n [] acc w = (Inr acc, w)"
| "processFrames e config i n (f # fs) (qrCanvases, delays) w =
     (case qrGenerator_generate e config (showLoadingMessage (ProcessingFrame (i + 1) n) w) of
        (Inl err, w1) \<Rightarrow> (Inl err, w1)
      | (Inr qrCanvas, w1) \<Rightarrow>
          (case imageDataToCanvas (imageData f) w1 of
             (frameCanvas, w2) \<Rightarrow>
               (case addLogoOverlay e (Some qrCanvas) (Some (toDataURL e (deref w2 frameCanvas)))
                       (logoOverlayOptions config) w2 of
                  (Inl err, w3) \<Rightarrow> (Inl err, w3)
                | (Inr finalCanvas, w3) \<Rightarrow>
                    processFrames e config (i + 1) n fs
                      (qrCanvases @ [finalCanvas], delays @ [Some (delay f)]) w3)))"

text \<open>The body of the \<open>try\<close> block of \<open>generateAnimatedQR\<close>.\<close>

definition animatedPath :: "env \<Rightarrow> options \<Rightarrow> world \<Rightarrow> (error + unit) \<times> world" where
  "animatedPath e config w =
     (if \<not> hasGifuct e \<or> \<not> hasGIF e then (Inl GifLibrariesNotLoaded, w)
      else
        (let w0 = showLoadingMessage ProcessingGIF w in
         case parseGIF e (state_currentLogo w0) of
           Inl err \<Rightarrow> (Inl err, w0)
         | Inr frames \<Rightarrow>
             (case processFrames e config 0 (length frames) frames ([], []) w0 of
                (Inl err, w1) \<Rightarrow> (Inl err, w1)
              | (Inr (qrCanvases, delays), w1) \<Rightarrow>
                  (let w2 = showLoadingMessage CreatingGIF w1 in
                   case createAnimatedGIF e w2 qrCanvases delays of
                     Inl err \<Rightarrow> (Inl err, w2)
                   | Inr gifBlob \<Rightarrow>
                       (case blobToDataURL e gifBlob of
                          Inl err \<Rightarrow> (Inl err, w2)
                        | Inr gifDataURL \<Rightarrow>
                            (Inr (), displayAnimatedGIF gifDataURL
                                       (w2\<lparr>state_animatedGIFBlob := Some gifBlob\<rparr>)))))))"

definition generateAnimatedQR :: "env \<Rightarrow> options \<Rightarrow> world \<Rightarrow> (error + unit) \<times> world" where
  "generateAnimatedQR e config w =
     (case animatedPath e config w of
        (Inr u, w1) \<Rightarrow> (Inr (), w1)
      | (Inl err, w1) \<Rightarrow> generateStaticQR e config (showError (FailedToProcessAnimatedGIF err) w1))"

text \<open>\<open>generateQR\<close> with the configuration that \<open>getConfig\<close> reads from the page; it catches
  whatever the two paths throw, and its \<open>finally\<close> block hides the loading indicator on
  every way out.\<close>

definition generateQR :: "env \<Rightarrow> options \<Rightarrow> world \<Rightarrow> world" where
  "generateQR e config w =
     (case validateInput config of
        Some msg \<Rightarrow> hideLoading (showError (InvalidInput msg) w)
      | None \<Rightarrow>
          (case (if state_isAnimatedGIF w \<and> truthy (state_currentLogo w)
                 then generateAnimatedQR e config (showLoading w)
                 else generateStaticQR e config (showLoading w)) of
             (Inr u, w1) \<Rightarrow> hideLoading w1
           | (Inl err, w1) \<Rightarrow> hideLoading (showError FailedToGenerate w1)))"

subsection \<open>What a frame of the animation is made of\<close>

text \<open>
  The canvas that \<open>imageDataToCanvas\<close> makes for a decoded frame, and the canvas that
  \<open>addLogoOverlay\<close> makes from a base canvas and a loaded logo: both as values, to say what
  the frames of the encoded animation show.
\<close>

definition imageDataCanvas :: "image \<Rightarrow> canvas" where
  "imageDataCanvas img =
     putImageData img 0 0 (set_height (iheight img) (set_width (iwidth img) createElement_canvas))"

definition overlaid :: "canvas \<Rightarrow> image \<Rightarrow> overlay_options \<Rightarrow> canvas" where
  "overlaid src logoImage oo =
     (let logoSize = real (width src) * logoSizePercent oo;
          logoX = (real (width src) - logoSize) / 2;
          logoY = (real (height src) - logoSize) / 2
      in drawLogo logoImage logoX logoY logoSize
           (drawLogoBackground logoX logoY logoSize (padding oo) (overlayBackgroundColor oo)
              (patternStyle oo)
              (drawImage (snapshot src) 0 0 (real (width src)) (real (height src))
                 (set_height (height src) (set_width (width src) createElement_canvas)))))"

section \<open>Sample inputs\<close>

text \<open>
  A stand-in for the encoding library, used only to run the model on concrete inputs: it
  holds two characters per type number and throws beyond that.
\<close>

definition sample_qr :: "nat \<Rightarrow> qr" where
  "sample_qr typeNumber = \<lparr>getModuleCount = typeNumber * 4 + 17, isDark = (\<lambda>row col. even (row + col))\<rparr>"

definition sample_env :: env where
  "sample_env = \<lparr>qrcode = (\<lambda>typeNumber ec str.
      if length str \<le> 2 * typeNumber then Inr (sample_qr typeNumber)
      else Inl ''code length overflow''),
     loadImage = (\<lambda>src. Inl ''not found''),
     toDataURL = (\<lambda>c. ''data:image/png;base64,AAAA''),
     hasGifuct = False,
     gifuct_frames = (\<lambda>bytes. Inl ''not a GIF''),
     hasGIF = False,
     gif_render = (\<lambda>frames. Finished),
     readAsDataURL = (\<lambda>b. Inr ''data:image/gif;base64,AAAA'')\<rparr>"

definition sample_options :: options where
  "sample_options = \<lparr>text_opt = Some ''hello'', size_px = 512, errorCorrection = ''H'',
     style = ''squares'', foregroundColor = ''#000000'', backgroundColor = ''#ffffff'',
     transparentBackground = False, margin = 4\<rparr>"

definition new_QRGenerator :: QRGenerator where
  "new_QRGenerator = \<lparr>canvas = createElement_canvas, encoderCalls = []\<rparr>"

definition long_text :: string where
  "long_text = replicate 100 (CHR ''a'')"

text \<open>A two-by-two matrix with a dark diagonal, drawn at 8 pixels with a one-module margin.\<close>

definition tiny_qr :: qr where
  "tiny_qr = \<lparr>getModuleCount = 2, isDark = (\<lambda>row col. row = col)\<rparr>"

definition tiny_options :: options where
  "tiny_options = \<lparr>text_opt = Some ''a'', size_px = 8, errorCorrection = ''L'',
     style = ''squares'', foregroundColor = ''#000000'', backgroundColor = ''#ffffff'',
     transparentBackground = False, margin = 1\<rparr>"

text \<open>A 200 by 100 logo, an image loader that finds it, and the state of a freshly constructed
  application.\<close>

definition wide_logo :: image where
  "wide_logo = \<lparr>iwidth = 200, iheight = 100, ibitmap = (\<lambda>p. Some ''#ff0000'')\<rparr>"

definition overlay_defaults :: overlay_options where
  "overlay_defaults = \<lparr>logoSizePercent = 0.25, padding = 10,
     overlayBackgroundColor = ''#FFFFFF'', patternStyle = ''squares''\<rparr>"

definition new_world :: world where
  "new_world = \<lparr>qrGenerator = new_QRGenerator, elements = (\<lambda>i. createElement_canvas),
     nextElement = 0, state_currentLogo = None, state_isAnimatedGIF = False,
     state_animatedGIFBlob = None, ui_currentCanvas = None, ui_displayed = Placeholder,
     ui_errors = [], ui_loading = False, ui_messages = []\<rparr>"

definition logo_env :: env where
  "logo_env = sample_env\<lparr>loadImage := (\<lambda>src. Inr wide_logo)\<rparr>"

text \<open>An environment in which both GIF libraries are present, the decoder finds three frames
  and the encoder finishes.\<close>

definition anim_env :: env where
  "anim_env = logo_env\<lparr>hasGifuct := True,
     gifuct_frames := (\<lambda>bytes. Inr [\<lparr>patch = wide_logo, raw_delay = Some 100\<rparr>,
                                     \<lparr>patch = wide_logo, raw_delay = Some 150\<rparr>,
                                     \<lparr>patch = wide_logo, raw_delay = None\<rparr>]),
     hasGIF := True\<rparr>"

text \<open>The application after an animated GIF has been uploaded as the logo.\<close>

definition gif_world :: world where
  "gif_world = new_world\<lparr>state_currentLogo := Some ''data:image/gif;base64,R0lGODlh'',
     state_isAnimatedGIF := True\<rparr>"

text \<open>
  A stand-in encoder of about the capacity of level H (30 characters per type number, so
  at most 1200 at type 40), and a text of 1300 characters, which the page's length check
  lets through and which no type number holds at that level.
\<close>

definition strict_env :: env where
  "strict_env = anim_env\<lparr>qrcode := (\<lambda>typeNumber ec str.
      if length str \<le> 30 * typeNumber then Inr (sample_qr typeNumber)
      else Inl ''code length overflow'')\<rparr>"

definition long_config :: options where
  "long_config = sample_options\<lparr>text_opt := Some (replicate 1300 (CHR ''a''))\<rparr>"

section \<open>Capacity selection\<close>

lemma accepts_Inr: "qrcode e t ec str = Inr q \<Longrightarrow> accepts e t ec str"
  by (simp add: accepts_def)

lemma not_accepts_Inl: "qrcode e t ec str = Inl m \<Longrightarrow> \<not> accepts e t ec str"
  by (simp add: accepts_def)

lemma probe_all_rejected:
  "n \<le> 41 \<Longrightarrow> \<forall>t. n \<le> t \<and> t \<le> 40 \<longrightarrow> \<not> accepts e t ec str \<Longrightarrow>
   calculateTypeNumber_from e str ec n tried = (10, tried @ [n..<41])"
proof (induction e str ec n tried rule: calculateTypeNumber_from.induct)
  case (1 e str ec typeNumber tried)
  show ?case
  proof (cases "typeNumber \<le> 40")
    case False
    with "1.prems" have "typeNumber = 41" by simp
    then show ?thesis by (simp add: calculateTypeNumber_from.simps)
  next
    case True
    with "1.prems" have "\<not> accepts e typeNumber ec str" by simp
    then obtain m where m: "qrcode e typeNumber ec str = Inl m"
      by (cases "qrcode e typeNumber ec str") (auto simp: accepts_def)
    have "calculateTypeNumber_from e str ec (typeNumber + 1) (tried @ [typeNumber])
            = (10, (tried @ [typeNumber]) @ [typeNumber + 1..<41])"
      using "1.IH" [OF True m] True "1.prems" by simp
    moreover have "[typeNumber..<41] = typeNumber # [typeNumber + 1..<41]"
      using True by (simp add: upt_conv_Cons)
    ultimately show ?thesis
      using True m by (subst calculateTypeNumber_from.simps) simp
  qed
qed

lemma probe_first_accepted:
  "n \<le> T \<Longrightarrow> T \<le> 40 \<Longrightarrow> accepts e T ec str \<Longrightarrow>
   \<forall>t. n \<le> t \<and> t < T \<longrightarrow> \<not> accepts e t ec str \<Longrightarrow>
   calculateTypeNumber_from e str ec n tried = (T, tried @ [n..<Suc T])"
proof (induction e str ec n tried rule: calculateTypeNumber_from.induct)
  case (1 e str ec typeNumber tried)
  have le40: "typeNumber \<le> 40" using "1.prems" by simp
  show ?case
  proof (cases "typeNumber = T")
    case True
    then obtain q where "qrcode e typeNumber ec str = Inr q"
      using "1.prems"(3) by (cases "qrcode e typeNumber ec str") (auto simp: accepts_def)
    then show ?thesis
      using True le40 by (subst calculateTypeNumber_from.simps) simp
  next
    case False
    with "1.prems" have lt: "typeNumber < T" by simp
    with "1.prems" have "\<not> accepts e typeNumber ec str" by simp
    then obtain m where m: "qrcode e typeNumber ec str = Inl m"
      by (cases "qrcode e typeNumber ec str") (auto simp: accepts_def)
    have "calculateTypeNumber_from e str ec (typeNumber + 1) (tried @ [typeNumber])
            = (T, (tried @ [typeNumber]) @ [typeNumber + 1..<Suc T])"
      using "1.IH" [OF le40 m] lt "1.prems" by simp
    moreover have "[typeNumber..<Suc T] = typeNumber # [typeNumber + 1..<Suc T]"
      using lt by (simp add: upt_conv_Cons)
    ultimately show ?thesis
      using le40 m by (subst calculateTypeNumber_from.simps) simp
  qed
qed

text \<open>
  Claim C1. For a non-empty text, \<open>calculateTypeNumber\<close> probes the type numbers from 1
  upward and returns the smallest one in 1..40 that the encoder accepts, or 10 when the
  encoder accepts none of them; \<open>generate\<close> then encodes with exactly that type number
  and renders the matrix it obtains.
\<close>

theorem generate_uses_smallest_type_number:
  assumes "text_opt opts = Some str" and "str \<noteq> []"
    and "calculateTypeNumber e str (errorCorrection opts) (encoderCalls g) = (T, tried)"
  shows "(if \<exists>t\<in>{1..40}. accepts e t (errorCorrection opts) str
          then T \<in> {1..40} \<and> accepts e T (errorCorrection opts) str \<and>
               (\<forall>t\<in>{1..<T}. \<not> accepts e t (errorCorrection opts) str) \<and>
               tried = encoderCalls g @ [1..<Suc T]
          else T = 10 \<and> tried = encoderCalls g @ [1..<41]) \<and>
         generate e opts g =
           (case qrcode e T (errorCorrection opts) str of
              Inl thrown \<Rightarrow> (Inl (QrcodeThrew thrown), g\<lparr>encoderCalls := tried @ [T]\<rparr>)
            | Inr q \<Rightarrow> (Inr (renderToCanvas q opts (canvas g)),
                       g\<lparr>canvas := renderToCanvas q opts (canvas g), encoderCalls := tried @ [T]\<rparr>))"
proof
  let ?ec = "errorCorrection opts"
  let ?ok = "\<lambda>t. 1 \<le> t \<and> accepts e t ?ec str"
  have run: "calculateTypeNumber_from e str ?ec 1 (encoderCalls g) = (T, tried)"
    using assms(3) by (simp add: calculateTypeNumber_def)
  show "if \<exists>t\<in>{1..40}. accepts e t ?ec str
        then T \<in> {1..40} \<and> accepts e T ?ec str \<and> (\<forall>t\<in>{1..<T}. \<not> accepts e t ?ec str) \<and>
             tried = encoderCalls g @ [1..<Suc T]
        else T = 10 \<and> tried = encoderCalls g @ [1..<41]"
  proof (cases "\<exists>t\<in>{1..40}. accepts e t ?ec str")
    case True
    then obtain t0 where t0: "1 \<le> t0" "t0 \<le> 40" "accepts e t0 ?ec str" by auto
    define m where "m = (LEAST t. ?ok t)"
    have ok_m: "?ok m" unfolding m_def using t0 by (intro LeastI [of ?ok t0]) simp
    have m_le: "m \<le> t0" unfolding m_def using t0 by (intro Least_le) simp
    have below: "\<forall>t. 1 \<le> t \<and> t < m \<longrightarrow> \<not> accepts e t ?ec str"
      using not_less_Least [of _ ?ok] unfolding m_def by blast
    have "calculateTypeNumber_from e str ?ec 1 (encoderCalls g) = (m, encoderCalls g @ [1..<Suc m])"
      using ok_m m_le t0(2) below by (intro probe_first_accepted) auto
    with run have "T = m" "tried = encoderCalls g @ [1..<Suc m]" by simp_all
    with True ok_m m_le t0(2) below show ?thesis by auto
  next
    case False
    then have "calculateTypeNumber_from e str ?ec 1 (encoderCalls g) = (10, encoderCalls g @ [1..<41])"
      by (intro probe_all_rejected) auto
    with run False show ?thesis by simp
  qed
  show "generate e opts g =
           (case qrcode e T ?ec str of
              Inl thrown \<Rightarrow> (Inl (QrcodeThrew thrown), g\<lparr>encoderCalls := tried @ [T]\<rparr>)
            | Inr q \<Rightarrow> (Inr (renderToCanvas q opts (canvas g)),
                       g\<lparr>canvas := renderToCanvas q opts (canvas g), encoderCalls := tried @ [T]\<rparr>))"
    using assms by (simp add: generate_def Let_def split: sum.splits)
qed

lemma sample_probe: "calculateTypeNumber sample_env ''hello'' ''H'' [] = (3, [1, 2, 3])"
  by (simp add: calculateTypeNumber_def calculateTypeNumber_from.simps sample_env_def)

theorem generate_uses_smallest_type_number_witness:
  "text_opt sample_options = Some ''hello'' \<and> ''hello'' \<noteq> [] \<and>
   calculateTypeNumber sample_env ''hello'' (errorCorrection sample_options)
     (encoderCalls new_QRGenerator) = (3, [1, 2, 3]) \<and>
   accepts sample_env 3 ''H'' ''hello'' \<and> \<not> accepts sample_env 2 ''H'' ''hello'' \<and>
   fst (generate sample_env sample_options new_QRGenerator) =
     Inr (renderToCanvas (sample_qr 3) sample_options createElement_canvas)"
proof -
  have h1: "text_opt sample_options = Some ''hello''" by (simp add: sample_options_def)
  have h2: "''hello'' \<noteq> []" by simp
  have h3: "calculateTypeNumber sample_env ''hello'' (errorCorrection sample_options)
     (encoderCalls new_QRGenerator) = (3, [1, 2, 3])"
    using sample_probe by (simp add: sample_options_def new_QRGenerator_def)
  show ?thesis
    using generate_uses_smallest_type_number [OF h1 h2 h3] h1 h3
    by (simp add: accepts_def sample_env_def new_QRGenerator_def sample_options_def)
qed

section \<open>Input and capacity errors\<close>

text \<open>
  Claim C7. With empty or missing text \<open>generate\<close> throws the text-required error and
  leaves the generator untouched: the encoder has not been called and nothing has been
  drawn. With a non-empty text that the encoder rejects at type number 40 (and, capacity
  growing with the type number, at every smaller one), \<open>generate\<close> throws what the encoder
  throws at the fallback type number 10, a different error, after the 40 probes and before
  any drawing: the canvas is unchanged.
\<close>

theorem generate_fails_before_rendering:
  "((text_opt opts = None \<or> text_opt opts = Some []) \<longrightarrow>
      generate e opts g = (Inl TextRequired, g)) \<and>
   (text_opt opts = Some str \<and> str \<noteq> [] \<and>
    \<not> accepts e 40 (errorCorrection opts) str \<and>
    (\<forall>t\<in>{1..40}. accepts e t (errorCorrection opts) str \<longrightarrow> accepts e 40 (errorCorrection opts) str) \<longrightarrow>
      (\<exists>thrown. qrcode e 10 (errorCorrection opts) str = Inl thrown \<and>
         generate e opts g =
           (Inl (QrcodeThrew thrown), g\<lparr>encoderCalls := encoderCalls g @ [1..<41] @ [10]\<rparr>) \<and>
         QrcodeThrew thrown \<noteq> TextRequired \<and>
         canvas (snd (generate e opts g)) = canvas g))"
proof (intro conjI impI)
  assume "text_opt opts = None \<or> text_opt opts = Some []"
  then show "generate e opts g = (Inl TextRequired, g)"
    by (auto simp: generate_def)
next
  let ?ec = "errorCorrection opts"
  assume a: "text_opt opts = Some str \<and> str \<noteq> [] \<and> \<not> accepts e 40 ?ec str \<and>
    (\<forall>t\<in>{1..40}. accepts e t ?ec str \<longrightarrow> accepts e 40 ?ec str)"
  then have none: "\<forall>t. 1 \<le> t \<and> t \<le> 40 \<longrightarrow> \<not> accepts e t ?ec str" by auto
  then have probe: "calculateTypeNumber e str ?ec (encoderCalls g) = (10, encoderCalls g @ [1..<41])"
    unfolding calculateTypeNumber_def by (intro probe_all_rejected) auto
  from none have "\<not> accepts e 10 ?ec str" by simp
  then obtain thrown where t: "qrcode e 10 ?ec str = Inl thrown"
    by (cases "qrcode e 10 ?ec str") (auto simp: accepts_def)
  have "generate e opts g =
          (Inl (QrcodeThrew thrown), g\<lparr>encoderCalls := encoderCalls g @ [1..<41] @ [10]\<rparr>)"
    using a probe t by (simp add: generate_def)
  with t show "\<exists>thrown. qrcode e 10 ?ec str = Inl thrown \<and>
         generate e opts g =
           (Inl (QrcodeThrew thrown), g\<lparr>encoderCalls := encoderCalls g @ [1..<41] @ [10]\<rparr>) \<and>
         QrcodeThrew thrown \<noteq> TextRequired \<and>
         canvas (snd (generate e opts g)) = canvas g"
    by simp
qed

theorem generate_fails_before_rendering_witness:
  "generate sample_env (sample_options\<lparr>text_opt := Some []\<rparr>) new_QRGenerator
     = (Inl TextRequired, new_QRGenerator) \<and>
   \<not> accepts sample_env 40 ''H'' long_text \<and>
   generate sample_env (sample_options\<lparr>text_opt := Some long_text\<rparr>) new_QRGenerator
     = (Inl (QrcodeThrew ''code length overflow''),
        new_QRGenerator\<lparr>encoderCalls := [1..<41] @ [10]\<rparr>)"
proof -
  have len: "length long_text = 100" by (simp add: long_text_def)
  have ne: "long_text \<noteq> []" using len by auto
  have rej: "\<And>t. t \<le> 40 \<Longrightarrow> \<not> accepts sample_env t ''H'' long_text"
    by (simp add: accepts_def sample_env_def len)
  show ?thesis
    using generate_fails_before_rendering
            [where opts = "sample_options\<lparr>text_opt := Some []\<rparr>" and e = sample_env
               and g = new_QRGenerator and str = "[]"]
          generate_fails_before_rendering
            [where opts = "sample_options\<lparr>text_opt := Some long_text\<rparr>" and e = sample_env
               and g = new_QRGenerator and str = long_text]
          ne rej
    by (auto simp: sample_options_def sample_env_def new_QRGenerator_def len)
qed

section \<open>Rendering\<close>

lemma fold_appends_calls:
  assumes "\<And>x c. f x c = c\<lparr>calls := calls c @ k x (fillStyle c)\<rparr>"
  shows "fold f xs c = c\<lparr>calls := calls c @ concat (map (\<lambda>x. k x (fillStyle c)) xs)\<rparr>"
proof (induction xs arbitrary: c)
  case Nil
  show ?case by simp
next
  case (Cons x xs)
  have "fold f (x # xs) c = fold f xs (f x c)" by simp
  also have "\<dots> = (f x c)\<lparr>calls := calls (f x c) @ concat (map (\<lambda>y. k y (fillStyle (f x c))) xs)\<rparr>"
    by (rule Cons.IH)
  also have "\<dots> = c\<lparr>calls := calls c @ concat (map (\<lambda>y. k y (fillStyle c)) (x # xs))\<rparr>"
    by (simp add: assms)
  finally show ?case .
qed

lemma map_darkCells:
  "map (\<lambda>(row, col). h row col) (darkCells q) =
     concat (map (\<lambda>row. concat (map (\<lambda>col. if isDark q row col then [h row col] else [])
        [0..<getModuleCount q])) [0..<getModuleCount q])"
  by (simp add: darkCells_def map_concat comp_def if_distrib [of "map (\<lambda>(row, col). h row col)"] cong: if_cong)


lemma renderSquares_calls:
  "renderSquares q cellSize mrg c =
     c\<lparr>calls := calls c @ map (\<lambda>(row, col). Fill (fillStyle c) (squareAt cellSize mrg row col)) (darkCells q)\<rparr>"
proof -
  let ?cell = "\<lambda>row col fs. if isDark q row col then [Fill fs (squareAt cellSize mrg row col)] else []"
  have inner: "\<And>row c. fold (\<lambda>col c'.
         if isDark q row col
         then fillRect ((real col + real mrg) * cellSize) ((real row + real mrg) * cellSize)
                cellSize cellSize c'
         else c') [0..<getModuleCount q] c
        = c\<lparr>calls := calls c @ concat (map (\<lambda>col. ?cell row col (fillStyle c)) [0..<getModuleCount q])\<rparr>"
    by (rule fold_appends_calls) (simp add: fillRect_def squareAt_def)
  show ?thesis
    unfolding renderSquares_def inner
    by (subst fold_appends_calls
          [where k = "\<lambda>row fs. concat (map (\<lambda>col. ?cell row col fs) [0..<getModuleCount q])"])
       (simp_all add: map_darkCells)
qed

lemma renderDots_calls:
  "renderDots q cellSize mrg c =
     c\<lparr>calls := calls c @ map (\<lambda>(row, col). Fill (fillStyle c) (dotAt cellSize mrg row col)) (darkCells q)\<rparr>"
proof -
  let ?cell = "\<lambda>row col fs. if isDark q row col then [Fill fs (dotAt cellSize mrg row col)] else []"
  have inner: "\<And>row c. fold (\<lambda>col c'.
         if isDark q row col
         then fillArc ((real col + real mrg + 0.5) * cellSize)
                ((real row + real mrg + 0.5) * cellSize) (cellSize * 0.45) c'
         else c') [0..<getModuleCount q] c
        = c\<lparr>calls := calls c @ concat (map (\<lambda>col. ?cell row col (fillStyle c)) [0..<getModuleCount q])\<rparr>"
    by (rule fold_appends_calls) (simp add: fillArc_def dotAt_def)
  show ?thesis
    unfolding renderDots_def Let_def inner
    by (subst fold_appends_calls
          [where k = "\<lambda>row fs. concat (map (\<lambda>col. ?cell row col fs) [0..<getModuleCount q])"])
       (simp_all add: map_darkCells)
qed

lemma renderRounded_calls:
  "renderRounded q cellSize mrg c =
     c\<lparr>calls := calls c @ map (\<lambda>(row, col). Fill (fillStyle c) (roundedAt cellSize mrg row col)) (darkCells q)\<rparr>"
proof -
  let ?cell = "\<lambda>row col fs. if isDark q row col then [Fill fs (roundedAt cellSize mrg row col)] else []"
  have inner: "\<And>row c. fold (\<lambda>col c'.
         if isDark q row col
         then drawRoundedRect ((real col + real mrg) * cellSize) ((real row + real mrg) * cellSize)
                cellSize cellSize (cellSize * 0.3) c'
         else c') [0..<getModuleCount q] c
        = c\<lparr>calls := calls c @ concat (map (\<lambda>col. ?cell row col (fillStyle c)) [0..<getModuleCount q])\<rparr>"
    by (rule fold_appends_calls) (simp add: drawRoundedRect_def roundedAt_def)
  show ?thesis
    unfolding renderRounded_def Let_def inner
    by (subst fold_appends_calls
          [where k = "\<lambda>row fs. concat (map (\<lambda>col. ?cell row col fs) [0..<getModuleCount q])"])
       (simp_all add: map_darkCells)
qed

lemma renderToCanvas_calls:
  "calls (renderToCanvas q opts c0) =
     ClearRect 0 0 (real (size_px opts)) (real (size_px opts)) #
     (if transparentBackground opts then []
      else [Fill (backgroundColor opts) (Rect 0 0 (real (size_px opts)) (real (size_px opts)))]) @
     map (\<lambda>(row, col). Fill (foregroundColor opts)
            (moduleShape (style opts) (cellSizeOf q opts) (margin opts) row col)) (darkCells q)"
  by (simp add: renderToCanvas_def Let_def renderSquares_calls renderDots_calls renderRounded_calls
        set_width_def set_height_def clearRect_def fillRect_def moduleShape_def)

lemma renderToCanvas_dims:
  "width (renderToCanvas q opts c0) = size_px opts \<and> height (renderToCanvas q opts c0) = size_px opts"
  by (simp add: renderToCanvas_def Let_def renderSquares_calls renderDots_calls renderRounded_calls
        set_width_def set_height_def clearRect_def fillRect_def)

lemma pixels_append: "pixels (ks @ ks') p = fold (\<lambda>k old. paint k p old) ks' (pixels ks p)"
  by (simp add: pixels_def)




lemma tiny_darkCells: "darkCells tiny_qr = [(0, 0), (1, 1)]"
  by (simp add: darkCells_def tiny_qr_def eval_nat_numeral upt_rec)

lemma tiny_cellSize: "cellSizeOf tiny_qr tiny_options = 2"
  by (simp add: cellSizeOf_def tiny_qr_def tiny_options_def)




lemma pixels_behind_modules:
  assumes "\<forall>(row, col)\<in>set cells. \<not> covers (sh row col) p"
  shows "pixels (ks @ map (\<lambda>(row, col). Fill fg (sh row col)) cells) p = pixels ks p"
proof -
  have "fold (\<lambda>k old. paint k p old) (map (\<lambda>(row, col). Fill fg (sh row col)) cells) old = old"
    for old
    using assms by (induction cells arbitrary: old) auto
  then show ?thesis by (simp add: pixels_append)
qed

text \<open>
  Claim C2. \<open>renderToCanvas\<close> clears the surface, then fills the whole surface with
  \<open>backgroundColor\<close> exactly when \<open>transparentBackground\<close> is false, and only then draws
  the dark modules. A point of the surface that no module shape covers is therefore left
  transparent when \<open>transparentBackground\<close> is true and has exactly \<open>backgroundColor\<close>
  otherwise.
\<close>

theorem background_filled_unless_transparent:
  "calls (renderToCanvas q opts c0) =
     ClearRect 0 0 (real (size_px opts)) (real (size_px opts)) #
     (if transparentBackground opts then []
      else [Fill (backgroundColor opts) (Rect 0 0 (real (size_px opts)) (real (size_px opts)))]) @
     map (\<lambda>(row, col). Fill (foregroundColor opts)
            (moduleShape (style opts) (cellSizeOf q opts) (margin opts) row col)) (darkCells q) \<and>
   width (renderToCanvas q opts c0) = size_px opts \<and>
   height (renderToCanvas q opts c0) = size_px opts \<and>
   (\<forall>p. onSurface (renderToCanvas q opts c0) p \<and>
        (\<forall>(row, col)\<in>set (darkCells q).
           \<not> covers (moduleShape (style opts) (cellSizeOf q opts) (margin opts) row col) p) \<longrightarrow>
        pixelAt (renderToCanvas q opts c0) p =
          (if transparentBackground opts then None else Some (backgroundColor opts)))"
proof (intro conjI allI impI)
  show "calls (renderToCanvas q opts c0) =
     ClearRect 0 0 (real (size_px opts)) (real (size_px opts)) #
     (if transparentBackground opts then []
      else [Fill (backgroundColor opts) (Rect 0 0 (real (size_px opts)) (real (size_px opts)))]) @
     map (\<lambda>(row, col). Fill (foregroundColor opts)
            (moduleShape (style opts) (cellSizeOf q opts) (margin opts) row col)) (darkCells q)"
    by (rule renderToCanvas_calls)
  show "width (renderToCanvas q opts c0) = size_px opts"
    and "height (renderToCanvas q opts c0) = size_px opts"
    by (simp_all add: renderToCanvas_dims)
next
  fix p :: point
  let ?sz = "real (size_px opts)"
  let ?pre = "ClearRect 0 0 ?sz ?sz #
     (if transparentBackground opts then []
      else [Fill (backgroundColor opts) (Rect 0 0 ?sz ?sz)])"
  assume a: "onSurface (renderToCanvas q opts c0) p \<and>
        (\<forall>(row, col)\<in>set (darkCells q).
           \<not> covers (moduleShape (style opts) (cellSizeOf q opts) (margin opts) row col) p)"
  then have inside: "covers (Rect 0 0 ?sz ?sz) p"
    by (simp add: onSurface_def renderToCanvas_dims)
  have "pixelAt (renderToCanvas q opts c0) p = pixels (calls (renderToCanvas q opts c0)) p"
    using a by (simp add: pixelAt_def)
  also have "calls (renderToCanvas q opts c0) =
      ?pre @ map (\<lambda>(row, col). Fill (foregroundColor opts)
            (moduleShape (style opts) (cellSizeOf q opts) (margin opts) row col)) (darkCells q)"
    by (simp add: renderToCanvas_calls)
  also have "pixels \<dots> p = pixels ?pre p"
    using a by (intro pixels_behind_modules) simp
  also have "\<dots> = (if transparentBackground opts then None else Some (backgroundColor opts))"
    using inside by (simp add: pixels_def)
  finally show "pixelAt (renderToCanvas q opts c0) p =
          (if transparentBackground opts then None else Some (backgroundColor opts))" .
qed

theorem background_filled_unless_transparent_witness:
  "onSurface (renderToCanvas tiny_qr tiny_options createElement_canvas) (1, 3) \<and>
   \<not> covers (squareAt 2 1 0 0) (1, 3) \<and> \<not> covers (squareAt 2 1 1 1) (1, 3) \<and>
   pixelAt (renderToCanvas tiny_qr tiny_options createElement_canvas) (1, 3) = Some ''#ffffff'' \<and>
   pixelAt (renderToCanvas tiny_qr (tiny_options\<lparr>transparentBackground := True\<rparr>)
      createElement_canvas) (1, 3) = None"
proof -
  let ?t = "tiny_options\<lparr>transparentBackground := True\<rparr>"
  note A = background_filled_unless_transparent [of tiny_qr tiny_options createElement_canvas]
  note B = background_filled_unless_transparent [of tiny_qr ?t createElement_canvas]
  have csA: "cellSizeOf tiny_qr tiny_options = 2" by (rule tiny_cellSize)
  have csB: "cellSizeOf tiny_qr ?t = 2"
    by (simp add: cellSizeOf_def tiny_qr_def tiny_options_def)
  have st: "style tiny_options = ''squares''" "style ?t = ''squares''"
           "margin tiny_options = 1" "margin ?t = 1"
    by (simp_all add: tiny_options_def)
  have out: "\<not> covers (squareAt 2 1 0 0) (1, 3)" "\<not> covers (squareAt 2 1 1 1) (1, 3)"
    by (simp_all add: squareAt_def)
  have onA: "onSurface (renderToCanvas tiny_qr tiny_options createElement_canvas) (1, 3)"
    by (simp add: onSurface_def renderToCanvas_dims tiny_options_def)
  have onB: "onSurface (renderToCanvas tiny_qr ?t createElement_canvas) (1, 3)"
    by (simp add: onSurface_def renderToCanvas_dims tiny_options_def)
  have freeA: "\<forall>(row, col)\<in>set (darkCells tiny_qr).
      \<not> covers (moduleShape (style tiny_options) (cellSizeOf tiny_qr tiny_options)
                  (margin tiny_options) row col) (1, 3)"
    using out by (simp add: tiny_darkCells csA st moduleShape_def)
  have freeB: "\<forall>(row, col)\<in>set (darkCells tiny_qr).
      \<not> covers (moduleShape (style ?t) (cellSizeOf tiny_qr ?t) (margin ?t) row col) (1, 3)"
    using out by (simp add: tiny_darkCells csB st moduleShape_def)
  have pA: "pixelAt (renderToCanvas tiny_qr tiny_options createElement_canvas) (1, 3) = Some ''#ffffff''"
    using A [THEN conjunct2, THEN conjunct2, THEN conjunct2, rule_format, of "(1, 3)"] onA freeA
    by (simp add: tiny_options_def)
  have pB: "pixelAt (renderToCanvas tiny_qr ?t createElement_canvas) (1, 3) = None"
    using B [THEN conjunct2, THEN conjunct2, THEN conjunct2, rule_format, of "(1, 3)"] onB freeB
    by (simp add: tiny_options_def)
  from onA out pA pB show ?thesis by blast
qed







section \<open>Logo overlay\<close>

lemma drawLogo_call:
  "calls (drawLogo img x y maxSize c) =
     calls c @ [DrawImage img
       (x + (maxSize - (if iheight img = 0 then maxSize
               else if real (iwidth img) / real (iheight img) > 1 then maxSize
               else if real (iwidth img) / real (iheight img) < 1
                    then maxSize * (real (iwidth img) / real (iheight img))
               else maxSize)) / 2)
       (y + (maxSize - (if iheight img = 0 then (if iwidth img = 0 then maxSize else 0)
               else if real (iwidth img) / real (iheight img) > 1
                    then maxSize / (real (iwidth img) / real (iheight img))
               else maxSize)) / 2)
       (if iheight img = 0 then maxSize
               else if real (iwidth img) / real (iheight img) > 1 then maxSize
               else if real (iwidth img) / real (iheight img) < 1
                    then maxSize * (real (iwidth img) / real (iheight img))
               else maxSize)
       (if iheight img = 0 then (if iwidth img = 0 then maxSize else 0)
               else if real (iwidth img) / real (iheight img) > 1
                    then maxSize / (real (iwidth img) / real (iheight img))
               else maxSize)]"
  by (simp add: drawLogo_def Let_def drawImage_def)

lemma drawLogo_frame:
  "width (drawLogo img x y m c) = width c \<and> height (drawLogo img x y m c) = height c"
  by (simp add: drawLogo_def Let_def drawImage_def)

lemma drawLogoBackground_frame:
  "width (drawLogoBackground x y s p bg ps c) = width c \<and>
   height (drawLogoBackground x y s p bg ps c) = height c"
  by (simp add: drawLogoBackground_def Let_def fillArc_def drawRoundedRect_def fillRect_def)

lemma deref_on_element:
  "deref (on_element i f w) r = (if r = Element i then f (elements w i) else deref w r)"
  by (cases r) (simp_all add: on_element_def)

lemma nextElement_on_element: "nextElement (on_element i f w) = nextElement w"
  by (simp add: on_element_def)

lemma qrGenerator_on_element: "qrGenerator (on_element i f w) = qrGenerator w"
  by (simp add: on_element_def)

lemma elements_on_element:
  "elements (on_element i f w) j = (if j = i then f (elements w i) else elements w j)"
  by (simp add: on_element_def)

lemma createElement_fresh:
  "createElement w = (i, w1) \<Longrightarrow>
     i = nextElement w \<and> nextElement w1 = nextElement w + 1 \<and> qrGenerator w1 = qrGenerator w \<and>
     elements w1 i = createElement_canvas \<and> (\<forall>r. allocated w r \<longrightarrow> deref w1 r = deref w r)"
proof -
  assume a: "createElement w = (i, w1)"
  have "\<And>r. allocated w r \<Longrightarrow> deref w1 r = deref w r"
  proof -
    fix r assume "allocated w r"
    with a show "deref w1 r = deref w r" by (cases r) (auto simp: createElement_def)
  qed
  with a show ?thesis by (auto simp: createElement_def)
qed

lemma sample_overlay_result:
  "fst (addLogoOverlay logo_env (Some GeneratorCanvas) (Some ''logo.png'') overlay_defaults new_world)
     = Inr (Element 0)"
  by (simp add: addLogoOverlay_def truthy_def createElement_def on_element_def Let_def
        drawCanvas_def new_world_def new_QRGenerator_def createElement_canvas_def
        set_width_def set_height_def logo_env_def sample_env_def)

lemma addLogoOverlay_succeeds:
  assumes "allocated w base" and "width (deref w base) \<noteq> 0" and "height (deref w base) \<noteq> 0"
    and "url \<noteq> []" and "loadImage e url = Inr L"
  shows "addLogoOverlay e (Some base) (Some url) oo w =
           (Inr (Element (nextElement w)),
            w\<lparr>elements := (elements w)(nextElement w := overlaid (deref w base) L oo),
              nextElement := nextElement w + 1\<rparr>)"
proof -
  have b: "deref (w\<lparr>elements := (elements w)(nextElement w := createElement_canvas),
                     nextElement := nextElement w + 1\<rparr>) base = deref w base"
    using assms(1) by (cases base) auto
  show ?thesis
    using assms b
    by (simp add: addLogoOverlay_def truthy_def createElement_def on_element_def Let_def
          drawCanvas_def overlaid_def set_width_def set_height_def createElement_canvas_def
          drawImage_def)
qed

text \<open>
  Claim C8. For a logo image with positive dimensions and a logo box of side \<open>maxSize\<close> at
  \<open>(x, y)\<close>, \<open>drawLogo\<close> draws the whole image into a rectangle with the aspect ratio of
  the source: the longer source dimension becomes \<open>maxSize\<close>, the shorter one is scaled by
  the same factor (half the width for a 2:1 landscape source), and the rectangle is centred
  in the box and lies inside it.
\<close>

theorem drawLogo_keeps_aspect_ratio:
  assumes "0 < iwidth img" and "0 < iheight img" and "0 \<le> maxSize"
  shows "\<exists>dx dy dw dh.
           calls (drawLogo img x y maxSize c) = calls c @ [DrawImage img dx dy dw dh] \<and>
           dw * real (iheight img) = dh * real (iwidth img) \<and>
           (iheight img \<le> iwidth img \<longrightarrow> dw = maxSize) \<and>
           (iwidth img \<le> iheight img \<longrightarrow> dh = maxSize) \<and>
           (iwidth img = 2 * iheight img \<longrightarrow> dh = 0.5 * dw) \<and>
           dx - x = (x + maxSize) - (dx + dw) \<and> dy - y = (y + maxSize) - (dy + dh) \<and>
           x \<le> dx \<and> dx + dw \<le> x + maxSize \<and> y \<le> dy \<and> dy + dh \<le> y + maxSize"
proof -
  let ?w = "real (iwidth img)" and ?h = "real (iheight img)"
  have wpos: "0 < ?w" and hpos: "0 < ?h" using assms by simp_all
  consider (landscape) "iheight img < iwidth img" | (portrait) "iwidth img < iheight img"
    | (square) "iwidth img = iheight img" by linarith
  then show ?thesis
  proof cases
    case landscape
    then have ar: "?w / ?h > 1" using hpos by simp
    have le: "maxSize * ?h / ?w \<le> maxSize"
    proof -
      have "maxSize * ?h \<le> maxSize * ?w"
        using landscape assms(3) by (intro mult_left_mono) simp_all
      then show ?thesis using wpos by (simp add: pos_divide_le_eq)
    qed
    have c: "calls (drawLogo img x y maxSize c) =
        calls c @ [DrawImage img x (y + (maxSize - maxSize * ?h / ?w) / 2) maxSize (maxSize * ?h / ?w)]"
      using ar assms by (simp add: drawLogo_call)
    have p1: "maxSize * ?h = maxSize * ?h / ?w * ?w" using wpos by simp
    have p2: "iwidth img = 2 * iheight img \<longrightarrow> maxSize * ?h / ?w = 0.5 * maxSize"
      using hpos by auto
    show ?thesis
      apply (rule exI [of _ x])
      apply (rule exI [of _ "y + (maxSize - maxSize * ?h / ?w) / 2"])
      apply (rule exI [of _ maxSize])
      apply (rule exI [of _ "maxSize * ?h / ?w"])
      using c p1 p2 le landscape assms(3) by (simp add: field_simps)
  next
    case portrait
    then have ar: "\<not> ?w / ?h > 1" "?w / ?h < 1" using hpos by simp_all
    have le: "maxSize * ?w / ?h \<le> maxSize"
    proof -
      have "maxSize * ?w \<le> maxSize * ?h"
        using portrait assms(3) by (intro mult_left_mono) simp_all
      then show ?thesis using hpos by (simp add: pos_divide_le_eq)
    qed
    have c: "calls (drawLogo img x y maxSize c) =
        calls c @ [DrawImage img (x + (maxSize - maxSize * ?w / ?h) / 2) y (maxSize * ?w / ?h) maxSize]"
      using ar assms by (simp add: drawLogo_call)
    have p1: "maxSize * ?w / ?h * ?h = maxSize * ?w" using hpos by simp
    show ?thesis
      apply (rule exI [of _ "x + (maxSize - maxSize * ?w / ?h) / 2"])
      apply (rule exI [of _ y])
      apply (rule exI [of _ "maxSize * ?w / ?h"])
      apply (rule exI [of _ maxSize])
      using c p1 le portrait assms(3) by (simp add: field_simps)
  next
    case square
    then have ar: "?w / ?h = 1" using hpos by simp
    have c: "calls (drawLogo img x y maxSize c) = calls c @ [DrawImage img x y maxSize maxSize]"
      using ar assms by (simp add: drawLogo_call)
    show ?thesis
      apply (rule exI [of _ x])
      apply (rule exI [of _ y])
      apply (rule exI [of _ maxSize])
      apply (rule exI [of _ maxSize])
      using c square assms by simp
  qed
qed

theorem drawLogo_keeps_aspect_ratio_witness:
  "0 < iwidth wide_logo \<and> 0 < iheight wide_logo \<and> (0::real) \<le> 128 \<and>
   calls (drawLogo wide_logo 192 192 128 createElement_canvas) = [DrawImage wide_logo 192 224 128 64] \<and>
   (\<exists>dx dy dw dh. calls (drawLogo wide_logo 192 192 128 createElement_canvas) =
        [DrawImage wide_logo dx dy dw dh] \<and> dh = 0.5 * dw)"
proof -
  have h1: "0 < iwidth wide_logo" and h2: "0 < iheight wide_logo"
    by (simp_all add: wide_logo_def)
  have h3: "(0::real) \<le> 128" by simp
  have c0: "calls createElement_canvas = []" by (simp add: createElement_canvas_def)
  have twice: "iwidth wide_logo = 2 * iheight wide_logo" by (simp add: wide_logo_def)
  have direct: "calls (drawLogo wide_logo 192 192 128 createElement_canvas)
                  = [DrawImage wide_logo 192 224 128 64]"
    by (simp add: drawLogo_call c0) (simp add: wide_logo_def)
  from drawLogo_keeps_aspect_ratio [OF h1 h2 h3, of 192 192 createElement_canvas] twice
  have "\<exists>dx dy dw dh. calls (drawLogo wide_logo 192 192 128 createElement_canvas) =
        [DrawImage wide_logo dx dy dw dh] \<and> dh = 0.5 * dw"
    unfolding c0 by auto
  with h1 h2 h3 direct show ?thesis by blast
qed

text \<open>
  Claim C9. \<open>addLogoOverlay\<close> draws on a canvas element that it creates and returns; that
  canvas has the width and the height of the base canvas, is not the base canvas, and
  every canvas that existed before the call, the base canvas among them, is left as it was,
  whether the call returns or throws. It returns whenever the logo loads and the base
  canvas has no zero dimension.
\<close>

theorem addLogoOverlay_leaves_base:
  assumes "allocated w base"
    and "addLogoOverlay e (Some base) logoSrc oo w = (res, w')"
  shows "(\<forall>r. allocated w r \<longrightarrow> deref w' r = deref w r) \<and>
         deref w' base = deref w base \<and>
         (\<forall>out. res = Inr out \<longrightarrow>
            out \<noteq> base \<and> \<not> allocated w out \<and> allocated w' out \<and>
            width (deref w' out) = width (deref w base) \<and>
            height (deref w' out) = height (deref w base)) \<and>
         (\<forall>url L. logoSrc = Some url \<and> url \<noteq> [] \<and> loadImage e url = Inr L \<and>
            width (deref w base) \<noteq> 0 \<and> height (deref w base) \<noteq> 0 \<longrightarrow>
            (\<exists>out. res = Inr out))"
proof (cases "truthy logoSrc")
  case False
  with assms show ?thesis by (auto simp: addLogoOverlay_def truthy_def)
next
  case True
  obtain i w1 where ce: "createElement w = (i, w1)" by (cases "createElement w")
  note fr = createElement_fresh [OF ce]
  have i: "i = nextElement w" using fr by simp
  have old: "\<And>r. allocated w r \<Longrightarrow> r \<noteq> Element i"
    using i by auto
  have keep1: "\<And>r. allocated w r \<Longrightarrow> deref w1 r = deref w r" using fr by simp
  have base1: "deref w1 base = deref w base" using keep1 assms(1) by simp
  have returns: "\<forall>url L. logoSrc = Some url \<and> url \<noteq> [] \<and> loadImage e url = Inr L \<and>
            width (deref w base) \<noteq> 0 \<and> height (deref w base) \<noteq> 0 \<longrightarrow>
            (\<exists>out. res = Inr out)"
    using assms addLogoOverlay_succeeds [of w base _ e _ oo] by auto
  have "(\<forall>r. allocated w r \<longrightarrow> deref w' r = deref w r) \<and>
         deref w' base = deref w base \<and>
         (\<forall>out. res = Inr out \<longrightarrow>
            out \<noteq> base \<and> \<not> allocated w out \<and> allocated w' out \<and>
            width (deref w' out) = width (deref w base) \<and>
            height (deref w' out) = height (deref w base))"
    using assms True ce base1 keep1 old fr
    by (auto simp: addLogoOverlay_def Let_def drawCanvas_def deref_on_element
          nextElement_on_element elements_on_element set_width_def set_height_def
          drawImage_def drawLogo_frame drawLogoBackground_frame
          split: if_splits sum.splits)
  with returns show ?thesis by blast
qed

theorem addLogoOverlay_leaves_base_witness:
  "allocated new_world GeneratorCanvas \<and>
   fst (addLogoOverlay logo_env (Some GeneratorCanvas) (Some ''logo.png'') overlay_defaults new_world)
     = Inr (Element 0) \<and>
   deref (snd (addLogoOverlay logo_env (Some GeneratorCanvas) (Some ''logo.png'') overlay_defaults
      new_world)) GeneratorCanvas = createElement_canvas \<and>
   width (deref (snd (addLogoOverlay logo_env (Some GeneratorCanvas) (Some ''logo.png'')
      overlay_defaults new_world)) (Element 0)) = 300 \<and>
   height (deref (snd (addLogoOverlay logo_env (Some GeneratorCanvas) (Some ''logo.png'')
      overlay_defaults new_world)) (Element 0)) = 150"
proof -
  let ?r = "addLogoOverlay logo_env (Some GeneratorCanvas) (Some ''logo.png'') overlay_defaults new_world"
  have h1: "allocated new_world GeneratorCanvas" by simp
  have h2: "?r = (Inr (Element 0), snd ?r)"
    using sample_overlay_result by (simp add: prod_eq_iff)
  have base: "deref new_world GeneratorCanvas = createElement_canvas"
    by (simp add: new_world_def new_QRGenerator_def)
  have dims: "width createElement_canvas = 300" "height createElement_canvas = 150"
    by (simp_all add: createElement_canvas_def)
  from addLogoOverlay_leaves_base [OF h1 h2] h1 sample_overlay_result base dims
  show ?thesis by simp
qed

section \<open>Animated GIF\<close>

lemma length_addedFrames: "length (addedFrames w canvases delays) = length canvases"
  by (simp add: addedFrames_def)

lemma fdelay_addedFrames:
  "i < length canvases \<Longrightarrow>
   fdelay (addedFrames w canvases delays ! i) = or_default (delay_at delays i) 100"
  by (simp add: addedFrames_def)

lemma createAnimatedGIF_Inr:
  "createAnimatedGIF e w canvases delays = Inr b \<Longrightarrow> b = Blob (addedFrames w canvases delays)"
  by (auto simp: createAnimatedGIF_def split: if_splits encoder_outcome.splits)

lemma renderToCanvas_indep: "renderToCanvas q opts c0 = renderToCanvas q opts c1"
  by (cases c0; cases c1)
     (simp add: renderToCanvas_def Let_def set_width_def set_height_def clearRect_def fillRect_def)

lemma probe_fst_indep:
  "fst (calculateTypeNumber_from e str ec n tried) = fst (calculateTypeNumber_from e str ec n tried')"
proof (induction e str ec n tried arbitrary: tried' rule: calculateTypeNumber_from.induct)
  case (1 e str ec typeNumber tried)
  show ?case
  proof (cases "typeNumber \<le> 40")
    case False
    then show ?thesis by (simp add: calculateTypeNumber_from.simps)
  next
    case True
    show ?thesis
    proof (cases "qrcode e typeNumber ec str")
      case (Inr q)
      with True show ?thesis by (simp add: calculateTypeNumber_from.simps)
    next
      case (Inl thrown)
      from "1.IH" [OF True Inl, of "tried' @ [typeNumber]"] True Inl show ?thesis
        by (simp add: calculateTypeNumber_from.simps [of e str ec typeNumber])
    qed
  qed
qed

lemma generate_fst_indep: "fst (generate e config g) = fst (generate e config g')"
proof (cases "truthy (text_opt config)")
  case False
  then show ?thesis by (auto simp: generate_def truthy_def split: option.splits)
next
  case True
  then obtain str where s: "text_opt config = Some str" "str \<noteq> []"
    by (auto simp: truthy_def split: option.splits)
  obtain T tr where p: "calculateTypeNumber e str (errorCorrection config) (encoderCalls g) = (T, tr)"
    by (cases "calculateTypeNumber e str (errorCorrection config) (encoderCalls g)")
  obtain T' tr' where p': "calculateTypeNumber e str (errorCorrection config) (encoderCalls g') = (T', tr')"
    by (cases "calculateTypeNumber e str (errorCorrection config) (encoderCalls g')")
  have "T = T'"
    using p p' probe_fst_indep [of e str "errorCorrection config" 1 "encoderCalls g" "encoderCalls g'"]
    by (simp add: calculateTypeNumber_def)
  then show ?thesis
    using s p p' renderToCanvas_indep [of _ config "canvas g" "canvas g'"]
    by (auto simp: generate_def Let_def split: sum.splits)
qed

lemma generate_Inr:
  "generate e config g = (Inr c, g') \<Longrightarrow>
     canvas g' = c \<and> width c = size_px config \<and> height c = size_px config"
  by (auto simp: generate_def Let_def renderToCanvas_dims split: option.splits if_splits prod.splits sum.splits)

lemma generate_Inl: "generate e config g = (Inl err, g') \<Longrightarrow> canvas g' = canvas g"
  by (auto simp: generate_def Let_def split: option.splits if_splits prod.splits sum.splits)

lemma parseGIF_Inr:
  "parseGIF e logo = Inr frames \<Longrightarrow> frames \<noteq> [] \<and> (\<forall>f\<in>set frames. delay f \<noteq> 0)"
  by (auto simp: parseGIF_def or_default_def split: if_splits option.splits sum.splits)

lemma qrGenerator_generate_Inr:
  assumes "qrGenerator_generate e config w = (Inr r, w1)"
  shows "r = GeneratorCanvas \<and>
         (\<exists>g1. generate e config (qrGenerator w) = (Inr (canvas g1), g1) \<and> w1 = w\<lparr>qrGenerator := g1\<rparr>)"
proof -
  obtain res g1 where g: "generate e config (qrGenerator w) = (res, g1)"
    by (cases "generate e config (qrGenerator w)")
  with assms obtain c where c: "res = Inr c" and r: "r = GeneratorCanvas"
    and w1: "w1 = w\<lparr>qrGenerator := g1\<rparr>"
    by (cases res) (auto simp: qrGenerator_generate_def)
  from g c generate_Inr [of e config "qrGenerator w" c g1] have "c = canvas g1" by simp
  with g c r w1 show ?thesis by auto
qed

lemma qrGenerator_generate_Inl:
  assumes "qrGenerator_generate e config w = (Inl err, w1)"
  shows "fst (generate e config (qrGenerator w)) = Inl err \<and>
         (\<exists>g1. w1 = w\<lparr>qrGenerator := g1\<rparr> \<and> canvas g1 = canvas (qrGenerator w))"
proof -
  obtain res g1 where g: "generate e config (qrGenerator w) = (res, g1)"
    by (cases "generate e config (qrGenerator w)")
  with assms have "res = Inl err" "w1 = w\<lparr>qrGenerator := g1\<rparr>"
    by (cases res; auto simp: qrGenerator_generate_def)+
  with g generate_Inl [of e config "qrGenerator w" err g1] show ?thesis by auto
qed

lemma imageDataToCanvas_eq:
  "imageDataToCanvas img w =
     (Element (nextElement w),
      w\<lparr>elements := (elements w)(nextElement w := imageDataCanvas img),
        nextElement := nextElement w + 1\<rparr>)"
  by (simp add: imageDataToCanvas_def createElement_def on_element_def imageDataCanvas_def
        set_width_def set_height_def createElement_canvas_def putImageData_def)

lemma addLogoOverlay_Inr:
  assumes "addLogoOverlay e (Some base) logoSrc oo w = (Inr out, w')" and "allocated w base"
  shows "\<exists>url L. logoSrc = Some url \<and> loadImage e url = Inr L \<and>
           width (deref w base) \<noteq> 0 \<and> height (deref w base) \<noteq> 0 \<and>
           out = Element (nextElement w) \<and>
           w' = w\<lparr>elements := (elements w)(nextElement w := overlaid (deref w base) L oo),
                  nextElement := nextElement w + 1\<rparr>"
proof -
  from assms(1) have t: "truthy logoSrc"
    by (auto simp: addLogoOverlay_def split: if_splits)
  then obtain url where url: "logoSrc = Some url"
    by (auto simp: truthy_def split: option.splits)
  have b: "deref (w\<lparr>elements := (elements w)(nextElement w := createElement_canvas),
                     nextElement := nextElement w + 1\<rparr>) base = deref w base"
    using assms(2) by (cases base) auto
  from assms(1) t url b show ?thesis
    by (auto simp: addLogoOverlay_def createElement_def on_element_def Let_def drawCanvas_def
          overlaid_def set_width_def set_height_def createElement_canvas_def drawImage_def
          split: if_splits sum.splits)
qed

lemma processFrames_step:
  assumes "processFrames e config i n (f # fs) (cs, ds) w = (Inr r, w')"
  shows "\<exists>g1 L w3.
           generate e config (qrGenerator w) = (Inr (canvas g1), g1) \<and>
           loadImage e (toDataURL e (imageDataCanvas (imageData f))) = Inr L \<and>
           qrGenerator w3 = g1 \<and>
           nextElement w3 = nextElement w + 2 \<and>
           elements w3 = (elements w)(nextElement w := imageDataCanvas (imageData f),
                                      nextElement w + 1 := overlaid (canvas g1) L (logoOverlayOptions config)) \<and>
           processFrames e config (i + 1) n fs
             (cs @ [Element (nextElement w + 1)], ds @ [Some (delay f)]) w3 = (Inr r, w')"
proof -
  let ?w0 = "showLoadingMessage (ProcessingFrame (i + 1) n) w"
  obtain r1 w1 where g: "qrGenerator_generate e config ?w0 = (r1, w1)"
    by (cases "qrGenerator_generate e config ?w0")
  with assms obtain qrc where r1: "r1 = Inr qrc" by (cases r1) auto
  from qrGenerator_generate_Inr [OF g [unfolded r1]] obtain g1
    where qrc: "qrc = GeneratorCanvas"
      and gen: "generate e config (qrGenerator ?w0) = (Inr (canvas g1), g1)"
      and w1: "w1 = ?w0\<lparr>qrGenerator := g1\<rparr>" by blast
  let ?w2 = "w1\<lparr>elements := (elements w1)(nextElement w1 := imageDataCanvas (imageData f)),
                 nextElement := nextElement w1 + 1\<rparr>"
  let ?url = "toDataURL e (imageDataCanvas (imageData f))"
  obtain r3 w3 where a: "addLogoOverlay e (Some GeneratorCanvas) (Some ?url)
                            (logoOverlayOptions config) ?w2 = (r3, w3)"
    by (cases "addLogoOverlay e (Some GeneratorCanvas) (Some ?url) (logoOverlayOptions config) ?w2")
  from assms g r1 qrc a obtain fin where r3: "r3 = Inr fin"
    by (cases r3) (auto simp: imageDataToCanvas_eq)
  have al: "allocated ?w2 GeneratorCanvas" by simp
  from addLogoOverlay_Inr [OF a [unfolded r3] al] obtain L
    where L: "loadImage e ?url = Inr L"
      and fin: "fin = Element (nextElement ?w2)"
      and w3: "w3 = ?w2\<lparr>elements := (elements ?w2)(nextElement ?w2 :=
                        overlaid (deref ?w2 GeneratorCanvas) L (logoOverlayOptions config)),
                      nextElement := nextElement ?w2 + 1\<rparr>" by auto
  have rec: "processFrames e config (i + 1) n fs
             (cs @ [Element (nextElement w + 1)], ds @ [Some (delay f)]) w3 = (Inr r, w')"
    using assms g r1 qrc a r3 fin w1 by (simp add: imageDataToCanvas_eq showLoadingMessage_def)
  have q0: "qrGenerator ?w0 = qrGenerator w" by (simp add: showLoadingMessage_def)
  have "qrGenerator w3 = g1" "nextElement w3 = nextElement w + 2"
       "elements w3 = (elements w)(nextElement w := imageDataCanvas (imageData f),
                                      nextElement w + 1 := overlaid (canvas g1) L (logoOverlayOptions config))"
    by (simp_all add: w3 w1 showLoadingMessage_def)
  with gen q0 L rec show ?thesis by auto
qed

lemma processFrames_Inr:
  "processFrames e config i n fs (cs, ds) w = (Inr (cs', ds'), w') \<Longrightarrow>
   \<exists>new. cs' = cs @ new \<and> length new = length fs \<and> ds' = ds @ map (\<lambda>f. Some (delay f)) fs \<and>
     nextElement w \<le> nextElement w' \<and> (\<forall>j<nextElement w. elements w' j = elements w j) \<and>
     (\<forall>k<length fs. \<exists>L c j.
         loadImage e (toDataURL e (imageDataCanvas (imageData (fs ! k)))) = Inr L \<and>
         fst (generate e config (qrGenerator w)) = Inr c \<and>
         new ! k = Element j \<and> nextElement w \<le> j \<and> j < nextElement w' \<and>
         elements w' j = overlaid c L (logoOverlayOptions config))"
proof (induction fs arbitrary: i cs ds w)
  case Nil
  then show ?case by simp
next
  case (Cons f fs)
  let ?oo = "logoOverlayOptions config"
  from processFrames_step [OF Cons.prems] obtain g1 L w3
    where gen: "generate e config (qrGenerator w) = (Inr (canvas g1), g1)"
      and L: "loadImage e (toDataURL e (imageDataCanvas (imageData f))) = Inr L"
      and q3: "qrGenerator w3 = g1"
      and n3: "nextElement w3 = nextElement w + 2"
      and e3: "elements w3 = (elements w)(nextElement w := imageDataCanvas (imageData f),
                                      nextElement w + 1 := overlaid (canvas g1) L ?oo)"
      and rec: "processFrames e config (i + 1) n fs
             (cs @ [Element (nextElement w + 1)], ds @ [Some (delay f)]) w3 = (Inr (cs', ds'), w')"
    by blast
  from Cons.IH [OF rec] obtain new'
    where c: "cs' = (cs @ [Element (nextElement w + 1)]) @ new'"
      and l: "length new' = length fs"
      and d: "ds' = (ds @ [Some (delay f)]) @ map (\<lambda>f. Some (delay f)) fs"
      and mono: "nextElement w3 \<le> nextElement w'"
      and keep: "\<forall>j<nextElement w3. elements w' j = elements w3 j"
      and each: "\<forall>k<length fs. \<exists>L c j.
         loadImage e (toDataURL e (imageDataCanvas (imageData (fs ! k)))) = Inr L \<and>
         fst (generate e config (qrGenerator w3)) = Inr c \<and>
         new' ! k = Element j \<and> nextElement w3 \<le> j \<and> j < nextElement w' \<and>
         elements w' j = overlaid c L ?oo"
    by blast
  let ?new = "Element (nextElement w + 1) # new'"
  have same: "fst (generate e config (qrGenerator w3)) = fst (generate e config (qrGenerator w))"
    by (rule generate_fst_indep)
  have first: "elements w' (nextElement w + 1) = overlaid (canvas g1) L ?oo"
    using keep n3 e3 by simp
  have old: "\<forall>j<nextElement w. elements w' j = elements w j"
    using keep n3 e3 by simp
  have all: "\<forall>k<length (f # fs). \<exists>L c j.
         loadImage e (toDataURL e (imageDataCanvas (imageData ((f # fs) ! k)))) = Inr L \<and>
         fst (generate e config (qrGenerator w)) = Inr c \<and>
         ?new ! k = Element j \<and> nextElement w \<le> j \<and> j < nextElement w' \<and>
         elements w' j = overlaid c L ?oo"
  proof (intro allI impI)
    fix k assume k: "k < length (f # fs)"
    show "\<exists>L c j.
         loadImage e (toDataURL e (imageDataCanvas (imageData ((f # fs) ! k)))) = Inr L \<and>
         fst (generate e config (qrGenerator w)) = Inr c \<and>
         ?new ! k = Element j \<and> nextElement w \<le> j \<and> j < nextElement w' \<and>
         elements w' j = overlaid c L ?oo"
    proof (cases k)
      case 0
      with L gen first mono n3 show ?thesis by auto
    next
      case (Suc k')
      with k have "k' < length fs" by simp
      with each obtain L' c' j'
        where a1: "loadImage e (toDataURL e (imageDataCanvas (imageData (fs ! k')))) = Inr L'"
          and a2: "fst (generate e config (qrGenerator w3)) = Inr c'"
          and a3: "new' ! k' = Element j'" and a4: "nextElement w3 \<le> j'"
          and a5: "j' < nextElement w'"
          and a6: "elements w' j' = overlaid c' L' ?oo" by blast
      have a2': "fst (generate e config (qrGenerator w)) = Inr c'" using a2 same by simp
      have a4': "nextElement w \<le> j'" using a4 n3 by simp
      show ?thesis
        by (rule exI [of _ L'], rule exI [of _ c'], rule exI [of _ j'])
           (simp add: Suc a1 a2' a3 a4' a5 a6)
    qed
  qed
  have "cs' = cs @ ?new" using c by simp
  moreover have "length ?new = length (f # fs)" using l by simp
  moreover have "ds' = ds @ map (\<lambda>f. Some (delay f)) (f # fs)" using d by simp
  moreover have "nextElement w \<le> nextElement w'" using mono n3 by simp
  ultimately show ?case using old all by blast
qed

lemma animatedPath_Inr:
  assumes "animatedPath e config w = (Inr u, w')"
  shows "\<exists>frames cs ds w1 url.
           parseGIF e (state_currentLogo w) = Inr frames \<and>
           processFrames e config 0 (length frames) frames ([], [])
              (showLoadingMessage ProcessingGIF w) = (Inr (cs, ds), w1) \<and>
           createAnimatedGIF e (showLoadingMessage CreatingGIF w1) cs ds
              = Inr (Blob (addedFrames (showLoadingMessage CreatingGIF w1) cs ds)) \<and>
           readAsDataURL e (Blob (addedFrames (showLoadingMessage CreatingGIF w1) cs ds)) = Inr url \<and>
           w' = displayAnimatedGIF url ((showLoadingMessage CreatingGIF w1)
                  \<lparr>state_animatedGIFBlob :=
                     Some (Blob (addedFrames (showLoadingMessage CreatingGIF w1) cs ds))\<rparr>)"
proof -
  let ?w0 = "showLoadingMessage ProcessingGIF w"
  have lg: "state_currentLogo ?w0 = state_currentLogo w" by (simp add: showLoadingMessage_def)
  from assms have libs: "hasGifuct e" "hasGIF e"
    by (auto simp: animatedPath_def split: if_splits)
  from assms libs lg obtain frames where p: "parseGIF e (state_currentLogo w) = Inr frames"
    by (cases "parseGIF e (state_currentLogo w)") (auto simp: animatedPath_def Let_def)
  obtain r1 w1 where pf: "processFrames e config 0 (length frames) frames ([], []) ?w0 = (r1, w1)"
    by (cases "processFrames e config 0 (length frames) frames ([], []) ?w0")
  from assms libs lg p pf obtain cs ds where r1: "r1 = Inr (cs, ds)"
    by (cases r1) (auto simp: animatedPath_def Let_def)
  let ?w2 = "showLoadingMessage CreatingGIF w1"
  from assms libs lg p pf r1 obtain b where c: "createAnimatedGIF e ?w2 cs ds = Inr b"
    by (cases "createAnimatedGIF e ?w2 cs ds") (auto simp: animatedPath_def Let_def)
  have b: "b = Blob (addedFrames ?w2 cs ds)" using c by (rule createAnimatedGIF_Inr)
  from assms libs lg p pf r1 c obtain url where u: "blobToDataURL e b = Inr url"
    by (cases "blobToDataURL e b") (auto simp: animatedPath_def Let_def)
  then have u': "readAsDataURL e b = Inr url"
    by (auto simp: blobToDataURL_def split: sum.splits)
  have "w' = displayAnimatedGIF url (?w2\<lparr>state_animatedGIFBlob := Some b\<rparr>)"
    using assms libs lg p pf r1 c u by (simp add: animatedPath_def Let_def)
  with p pf r1 c b u' show ?thesis by blast
qed

lemma qrGenerator_generate_succeeds:
  assumes "fst (generate e config g0) = Inr c"
  shows "\<exists>g1. qrGenerator_generate e config w = (Inr GeneratorCanvas, w\<lparr>qrGenerator := g1\<rparr>) \<and>
              canvas g1 = c \<and> width c = size_px config \<and> height c = size_px config"
proof -
  have "fst (generate e config (qrGenerator w)) = Inr c"
    using assms generate_fst_indep [of e config "qrGenerator w" g0] by simp
  then obtain g1 where g: "generate e config (qrGenerator w) = (Inr c, g1)"
    by (cases "generate e config (qrGenerator w)") auto
  from generate_Inr [OF g] g show ?thesis
    by (auto simp: qrGenerator_generate_def)
qed

lemma processFrames_succeeds:
  assumes "fst (generate e config g0) = Inr c" and "0 < size_px config"
    and "\<forall>f\<in>set fs. toDataURL e (imageDataCanvas (imageData f)) \<noteq> [] \<and>
           (\<exists>L. loadImage e (toDataURL e (imageDataCanvas (imageData f))) = Inr L)"
  shows "\<exists>r w'. processFrames e config i n fs acc w = (Inr r, w')"
  using assms(3)
proof (induction fs arbitrary: i acc w)
  case Nil
  show ?case by simp
next
  case (Cons f fs)
  obtain cs ds where acc: "acc = (cs, ds)" by (cases acc)
  let ?w0 = "showLoadingMessage (ProcessingFrame (i + 1) n) w"
  let ?url = "toDataURL e (imageDataCanvas (imageData f))"
  from Cons.prems obtain L where url: "?url \<noteq> []" and L: "loadImage e ?url = Inr L" by auto
  from qrGenerator_generate_succeeds [OF assms(1), of ?w0] obtain g1
    where g: "qrGenerator_generate e config ?w0 = (Inr GeneratorCanvas, ?w0\<lparr>qrGenerator := g1\<rparr>)"
      and c: "canvas g1 = c" "width c = size_px config" "height c = size_px config" by blast
  let ?w2 = "?w0\<lparr>qrGenerator := g1,
                  elements := (elements ?w0)(nextElement ?w0 := imageDataCanvas (imageData f)),
                  nextElement := nextElement ?w0 + 1\<rparr>"
  have a: "addLogoOverlay e (Some GeneratorCanvas) (Some ?url) (logoOverlayOptions config) ?w2 =
           (Inr (Element (nextElement ?w2)),
            ?w2\<lparr>elements := (elements ?w2)(nextElement ?w2 :=
                     overlaid (deref ?w2 GeneratorCanvas) L (logoOverlayOptions config)),
                nextElement := nextElement ?w2 + 1\<rparr>)"
    using c assms(2) url L by (intro addLogoOverlay_succeeds) simp_all
  have "\<forall>f\<in>set fs. toDataURL e (imageDataCanvas (imageData f)) \<noteq> [] \<and>
           (\<exists>L. loadImage e (toDataURL e (imageDataCanvas (imageData f))) = Inr L)"
    using Cons.prems by simp
  from Cons.IH [OF this] show ?case
    unfolding acc using g a by (simp add: imageDataToCanvas_eq)
qed

lemma animatedPath_succeeds:
  assumes "hasGifuct e" and "hasGIF e"
    and "parseGIF e (state_currentLogo w) = Inr frames"
    and "fst (generate e config g0) = Inr c" and "0 < size_px config"
    and "\<forall>f\<in>set frames. toDataURL e (imageDataCanvas (imageData f)) \<noteq> [] \<and>
           (\<exists>L. loadImage e (toDataURL e (imageDataCanvas (imageData f))) = Inr L)"
    and "\<forall>gframes. gif_render e gframes = Finished"
    and "\<forall>b. \<exists>url. readAsDataURL e b = Inr url"
  shows "fst (animatedPath e config w) = Inr ()"
proof -
  let ?w0 = "showLoadingMessage ProcessingGIF w"
  have lg: "state_currentLogo ?w0 = state_currentLogo w" by (simp add: showLoadingMessage_def)
  from processFrames_succeeds [OF assms(4,5,6)] obtain r w1
    where pf: "processFrames e config 0 (length frames) frames ([], []) ?w0 = (Inr r, w1)"
    by blast
  obtain cs ds where r: "r = (cs, ds)" by (cases r)
  from processFrames_Inr [OF pf [unfolded r]] have "length cs = length frames" by auto
  moreover have "frames \<noteq> []" using parseGIF_Inr [OF assms(3)] by simp
  ultimately have ne: "cs \<noteq> []" by auto
  let ?w2 = "showLoadingMessage CreatingGIF w1"
  have cg: "createAnimatedGIF e ?w2 cs ds = Inr (Blob (addedFrames ?w2 cs ds))"
    using assms(2,7) ne by (simp add: createAnimatedGIF_def)
  from assms(8) obtain url where "readAsDataURL e (Blob (addedFrames ?w2 cs ds)) = Inr url"
    by blast
  then have "blobToDataURL e (Blob (addedFrames ?w2 cs ds)) = Inr url"
    by (simp add: blobToDataURL_def)
  with assms(1,2,3) lg pf r cg show ?thesis
    by (simp add: animatedPath_def Let_def)
qed

lemma sample_generate:
  "fst (generate anim_env sample_options g) = Inr (renderToCanvas (sample_qr 3) sample_options (canvas g))"
proof -
  have "calculateTypeNumber anim_env ''hello'' ''H'' (encoderCalls g) = (3, encoderCalls g @ [1, 2, 3])"
    by (simp add: calculateTypeNumber_def calculateTypeNumber_from.simps anim_env_def logo_env_def
          sample_env_def)
  then show ?thesis
    by (simp add: generate_def Let_def sample_options_def anim_env_def logo_env_def sample_env_def)
qed

lemma sample_parseGIF:
  "parseGIF anim_env (state_currentLogo gif_world) =
     Inr [\<lparr>imageData = wide_logo, delay = 100\<rparr>, \<lparr>imageData = wide_logo, delay = 150\<rparr>,
          \<lparr>imageData = wide_logo, delay = 100\<rparr>]"
  by (simp add: parseGIF_def gif_world_def new_world_def anim_env_def logo_env_def sample_env_def
        base64_of_def truthy_def or_default_def)


lemma animated_frames:
  assumes "parseGIF e (state_currentLogo w) = Inr frames"
    and "animatedPath e config w = (Inr (), w')"
  shows "generateAnimatedQR e config w = (Inr (), w') \<and>
         (\<exists>gframes c url.
            state_animatedGIFBlob w' = Some (Blob gframes) \<and>
            readAsDataURL e (Blob gframes) = Inr url \<and> ui_displayed w' = ShowsGIF url \<and>
            length gframes = length frames \<and>
            map fdelay gframes = map delay frames \<and>
            fst (generate e config (qrGenerator w)) = Inr c \<and>
            (\<forall>k<length frames. \<exists>L.
               loadImage e (toDataURL e (imageDataCanvas (imageData (frames ! k)))) = Inr L \<and>
               fimage (gframes ! k) = snapshot (overlaid c L (logoOverlayOptions config))))"
proof
  show "generateAnimatedQR e config w = (Inr (), w')"
    using assms(2) by (simp add: generateAnimatedQR_def)
next
  let ?oo = "logoOverlayOptions config"
  let ?w0 = "showLoadingMessage ProcessingGIF w"
  from animatedPath_Inr [OF assms(2)] assms(1) obtain cs ds w1 url
    where pf: "processFrames e config 0 (length frames) frames ([], []) ?w0 = (Inr (cs, ds), w1)"
      and u: "readAsDataURL e (Blob (addedFrames (showLoadingMessage CreatingGIF w1) cs ds)) = Inr url"
      and w': "w' = displayAnimatedGIF url ((showLoadingMessage CreatingGIF w1)
                  \<lparr>state_animatedGIFBlob :=
                     Some (Blob (addedFrames (showLoadingMessage CreatingGIF w1) cs ds))\<rparr>)"
    by auto
  let ?w2 = "showLoadingMessage CreatingGIF w1"
  let ?g = "addedFrames ?w2 cs ds"
  from processFrames_Inr [OF pf] have
        l: "length cs = length frames"
    and d: "ds = map (\<lambda>f. Some (delay f)) frames"
    and each: "\<forall>k<length frames. \<exists>L c j.
         loadImage e (toDataURL e (imageDataCanvas (imageData (frames ! k)))) = Inr L \<and>
         fst (generate e config (qrGenerator ?w0)) = Inr c \<and>
         cs ! k = Element j \<and> elements w1 j = overlaid c L ?oo"
    by auto
  have q0: "qrGenerator ?w0 = qrGenerator w" by (simp add: showLoadingMessage_def)
  have ne: "frames \<noteq> []" and nz: "\<forall>f\<in>set frames. delay f \<noteq> 0"
    using parseGIF_Inr [OF assms(1)] by simp_all
  from ne each obtain c where c: "fst (generate e config (qrGenerator w)) = Inr c"
    unfolding q0 by (cases frames) auto
  have len: "length ?g = length frames" using l by (simp add: length_addedFrames)
  have delays: "map fdelay ?g = map delay frames"
  proof (rule nth_equalityI)
    show "length (map fdelay ?g) = length (map delay frames)" using len by simp
  next
    fix k assume "k < length (map fdelay ?g)"
    then have k: "k < length frames" using len by simp
    then have nz_k: "delay (frames ! k) \<noteq> 0" using nz by simp
    have "map fdelay ?g ! k = fdelay (?g ! k)" using k len by simp
    also have "\<dots> = or_default (delay_at ds k) 100"
      using k l by (simp add: fdelay_addedFrames)
    also have "\<dots> = delay (frames ! k)"
      using k nz_k by (simp add: delay_at_def d or_default_def)
    finally show "map fdelay ?g ! k = map delay frames ! k" using k by simp
  qed
  have images: "\<forall>k<length frames. \<exists>L.
               loadImage e (toDataURL e (imageDataCanvas (imageData (frames ! k)))) = Inr L \<and>
               fimage (?g ! k) = snapshot (overlaid c L ?oo)"
  proof (intro allI impI)
    fix k assume k: "k < length frames"
    with each obtain L c' j
      where L: "loadImage e (toDataURL e (imageDataCanvas (imageData (frames ! k)))) = Inr L"
        and c': "fst (generate e config (qrGenerator ?w0)) = Inr c'"
        and j: "cs ! k = Element j" and el: "elements w1 j = overlaid c' L ?oo" by blast
    have "c' = c" using c c' q0 by simp
    moreover have "fimage (?g ! k) = snapshot (deref ?w2 (cs ! k))"
      using k l by (simp add: addedFrames_def)
    moreover have "deref ?w2 (cs ! k) = elements w1 j"
      using j by (simp add: showLoadingMessage_def)
    ultimately show "\<exists>L. loadImage e (toDataURL e (imageDataCanvas (imageData (frames ! k)))) = Inr L \<and>
               fimage (?g ! k) = snapshot (overlaid c L ?oo)"
      using L el by auto
  qed
  have "state_animatedGIFBlob w' = Some (Blob ?g)" "ui_displayed w' = ShowsGIF url"
    by (simp_all add: w' displayAnimatedGIF_def)
  with u len delays c images
  show "\<exists>gframes c url.
            state_animatedGIFBlob w' = Some (Blob gframes) \<and>
            readAsDataURL e (Blob gframes) = Inr url \<and> ui_displayed w' = ShowsGIF url \<and>
            length gframes = length frames \<and>
            map fdelay gframes = map delay frames \<and>
            fst (generate e config (qrGenerator w)) = Inr c \<and>
            (\<forall>k<length frames. \<exists>L.
               loadImage e (toDataURL e (imageDataCanvas (imageData (frames ! k)))) = Inr L \<and>
               fimage (gframes ! k) = snapshot (overlaid c L (logoOverlayOptions config)))"
    by blast
qed

text \<open>
  Claim C10. \<open>createAnimatedGIF\<close> adds one frame per canvas. A frame whose delay is
  missing from the array, \<open>undefined\<close> or 0 is added with delay 100, so a supplied delay of
  0 is not the delay of the added frame; a frame with a non-zero delay keeps it. The blob of
  a successful encoding is made of exactly these frames.
\<close>

theorem createAnimatedGIF_replaces_falsy_delays:
  "length (addedFrames w canvases delays) = length canvases \<and>
   (\<forall>i<length canvases.
      (length delays \<le> i \<or> delays ! i = None \<or> delays ! i = Some 0 \<longrightarrow>
         fdelay (addedFrames w canvases delays ! i) = 100) \<and>
      (i < length delays \<and> delays ! i = Some 0 \<longrightarrow>
         Some (fdelay (addedFrames w canvases delays ! i)) \<noteq> delays ! i) \<and>
      (\<forall>d. i < length delays \<and> delays ! i = Some d \<and> d \<noteq> 0 \<longrightarrow>
         fdelay (addedFrames w canvases delays ! i) = d)) \<and>
   (\<forall>b. createAnimatedGIF e w canvases delays = Inr b \<longrightarrow>
      b = Blob (addedFrames w canvases delays))"
proof (intro conjI allI impI)
  show "length (addedFrames w canvases delays) = length canvases"
    by (rule length_addedFrames)
next
  fix i assume "i < length canvases"
    and "length delays \<le> i \<or> delays ! i = None \<or> delays ! i = Some 0"
  then show "fdelay (addedFrames w canvases delays ! i) = 100"
    by (auto simp: fdelay_addedFrames delay_at_def or_default_def)
next
  fix i assume "i < length canvases" and "i < length delays \<and> delays ! i = Some 0"
  then show "Some (fdelay (addedFrames w canvases delays ! i)) \<noteq> delays ! i"
    by (simp add: fdelay_addedFrames delay_at_def or_default_def)
next
  fix i d assume "i < length canvases" and "i < length delays \<and> delays ! i = Some d \<and> d \<noteq> 0"
  then show "fdelay (addedFrames w canvases delays ! i) = d"
    by (simp add: fdelay_addedFrames delay_at_def or_default_def)
next
  fix b assume "createAnimatedGIF e w canvases delays = Inr b"
  then show "b = Blob (addedFrames w canvases delays)" by (rule createAnimatedGIF_Inr)
qed

theorem createAnimatedGIF_replaces_falsy_delays_witness:
  "createAnimatedGIF anim_env new_world [GeneratorCanvas, GeneratorCanvas, GeneratorCanvas]
      [Some 0, Some 50]
     = Inr (Blob (addedFrames new_world [GeneratorCanvas, GeneratorCanvas, GeneratorCanvas]
                    [Some 0, Some 50])) \<and>
   map fdelay (addedFrames new_world [GeneratorCanvas, GeneratorCanvas, GeneratorCanvas]
                 [Some 0, Some 50]) = [100, 50, 100]"
proof -
  let ?cs = "[GeneratorCanvas, GeneratorCanvas, GeneratorCanvas]"
  let ?ds = "[Some 0, Some 50 :: int option]"
  note T = createAnimatedGIF_replaces_falsy_delays [of new_world ?cs ?ds anim_env]
  have run: "createAnimatedGIF anim_env new_world ?cs ?ds = Inr (Blob (addedFrames new_world ?cs ?ds))"
    by (simp add: createAnimatedGIF_def anim_env_def logo_env_def sample_env_def)
  have len: "length (addedFrames new_world ?cs ?ds) = 3"
    using T by simp
  have d0: "fdelay (addedFrames new_world ?cs ?ds ! 0) = 100"
    using T [THEN conjunct2, THEN conjunct1, rule_format, of 0] by simp
  have d1: "fdelay (addedFrames new_world ?cs ?ds ! Suc 0) = 50"
    using T [THEN conjunct2, THEN conjunct1, rule_format, of "Suc 0"] by simp
  have d2: "fdelay (addedFrames new_world ?cs ?ds ! Suc (Suc 0)) = 100"
    using T [THEN conjunct2, THEN conjunct1, rule_format, of "Suc (Suc 0)"] by simp
  have "map fdelay (addedFrames new_world ?cs ?ds) = [100, 50, 100]"
    using len d0 d1 d2 by (intro nth_equalityI) (auto simp: less_Suc_eq numeral_3_eq_3)
  with run show ?thesis by simp
qed

text \<open>
  Claim C5. For a logo that \<open>parseGIF\<close> decodes into \<open>n\<close> frames, the animated path of
  \<open>generateAnimatedQR\<close> completes when both libraries are present, the QR code can be
  generated, every frame loads as a logo and the encoder and the reader succeed. Whenever it
  completes, the encoded animation consists of exactly \<open>n\<close> frames, the delay of output
  frame \<open>i\<close> is the delay decoded for frame \<open>i\<close>, and output frame \<open>i\<close> shows the QR code
  overlaid with the logo loaded from decoded frame \<open>i\<close>.
\<close>

theorem animated_frames_follow_decoded_frames:
  assumes "parseGIF e (state_currentLogo w) = Inr frames"
  shows "(hasGifuct e \<and> hasGIF e \<and> 0 < size_px config \<and>
          (\<exists>c. fst (generate e config (qrGenerator w)) = Inr c) \<and>
          (\<forall>f\<in>set frames. toDataURL e (imageDataCanvas (imageData f)) \<noteq> [] \<and>
             (\<exists>L. loadImage e (toDataURL e (imageDataCanvas (imageData f))) = Inr L)) \<and>
          (\<forall>gframes. gif_render e gframes = Finished) \<and>
          (\<forall>b. \<exists>url. readAsDataURL e b = Inr url) \<longrightarrow>
            fst (animatedPath e config w) = Inr ()) \<and>
         (\<forall>w'. animatedPath e config w = (Inr (), w') \<longrightarrow>
            generateAnimatedQR e config w = (Inr (), w') \<and>
            (\<exists>gframes c url.
               state_animatedGIFBlob w' = Some (Blob gframes) \<and>
               readAsDataURL e (Blob gframes) = Inr url \<and> ui_displayed w' = ShowsGIF url \<and>
               length gframes = length frames \<and>
               map fdelay gframes = map delay frames \<and>
               fst (generate e config (qrGenerator w)) = Inr c \<and>
               (\<forall>k<length frames. \<exists>L.
                  loadImage e (toDataURL e (imageDataCanvas (imageData (frames ! k)))) = Inr L \<and>
                  fimage (gframes ! k) = snapshot (overlaid c L (logoOverlayOptions config)))))"
proof (intro conjI impI allI)
  assume a: "hasGifuct e \<and> hasGIF e \<and> 0 < size_px config \<and>
          (\<exists>c. fst (generate e config (qrGenerator w)) = Inr c) \<and>
          (\<forall>f\<in>set frames. toDataURL e (imageDataCanvas (imageData f)) \<noteq> [] \<and>
             (\<exists>L. loadImage e (toDataURL e (imageDataCanvas (imageData f))) = Inr L)) \<and>
          (\<forall>gframes. gif_render e gframes = Finished) \<and>
          (\<forall>b. \<exists>url. readAsDataURL e b = Inr url)"
  then obtain c where c: "fst (generate e config (qrGenerator w)) = Inr c" by blast
  from a show "fst (animatedPath e config w) = Inr ()"
    by (intro animatedPath_succeeds [OF _ _ assms c]) simp_all
next
  fix w' assume "animatedPath e config w = (Inr (), w')"
  from animated_frames [OF assms this]
  show "generateAnimatedQR e config w = (Inr (), w')"
    and "\<exists>gframes c url.
               state_animatedGIFBlob w' = Some (Blob gframes) \<and>
               readAsDataURL e (Blob gframes) = Inr url \<and> ui_displayed w' = ShowsGIF url \<and>
               length gframes = length frames \<and>
               map fdelay gframes = map delay frames \<and>
               fst (generate e config (qrGenerator w)) = Inr c \<and>
               (\<forall>k<length frames. \<exists>L.
                  loadImage e (toDataURL e (imageDataCanvas (imageData (frames ! k)))) = Inr L \<and>
                  fimage (gframes ! k) = snapshot (overlaid c L (logoOverlayOptions config)))"
    by blast+
qed

theorem animated_frames_follow_decoded_frames_witness:
  "parseGIF anim_env (state_currentLogo gif_world) =
     Inr [\<lparr>imageData = wide_logo, delay = 100\<rparr>, \<lparr>imageData = wide_logo, delay = 150\<rparr>,
          \<lparr>imageData = wide_logo, delay = 100\<rparr>] \<and>
   fst (animatedPath anim_env sample_options gif_world) = Inr () \<and>
   (\<exists>gframes. state_animatedGIFBlob (snd (animatedPath anim_env sample_options gif_world))
                 = Some (Blob gframes) \<and>
      length gframes = 3 \<and> map fdelay gframes = [100, 150, 100])"
proof -
  note T = animated_frames_follow_decoded_frames [OF sample_parseGIF, of sample_options]
  have ok: "fst (animatedPath anim_env sample_options gif_world) = Inr ()"
  proof (rule T [THEN conjunct1, rule_format], intro conjI)
    show "hasGifuct anim_env" "hasGIF anim_env" by (simp_all add: anim_env_def)
    show "0 < size_px sample_options" by (simp add: sample_options_def)
    show "\<exists>c. fst (generate anim_env sample_options (qrGenerator gif_world)) = Inr c"
      using sample_generate by blast
  qed (simp_all add: anim_env_def logo_env_def sample_env_def)
  then have run: "animatedPath anim_env sample_options gif_world
               = (Inr (), snd (animatedPath anim_env sample_options gif_world))"
    by (simp add: prod_eq_iff)
  from T [THEN conjunct2, rule_format, OF run]
  obtain gframes where "state_animatedGIFBlob (snd (animatedPath anim_env sample_options gif_world))
                 = Some (Blob gframes)"
    and "length gframes = 3" and "map fdelay gframes = [100, 150, 100]"
    by auto
  with sample_parseGIF ok show ?thesis by auto
qed

section \<open>Fallback to the static path\<close>

lemma generate_all_rejected:
  assumes "text_opt opts = Some str" and "str \<noteq> []"
    and "\<forall>t. 1 \<le> t \<and> t \<le> 40 \<longrightarrow> \<not> accepts e t (errorCorrection opts) str"
  shows "\<exists>thrown. qrcode e 10 (errorCorrection opts) str = Inl thrown \<and>
           generate e opts g =
             (Inl (QrcodeThrew thrown), g\<lparr>encoderCalls := encoderCalls g @ [1..<41] @ [10]\<rparr>)"
proof -
  let ?ec = "errorCorrection opts"
  have probe: "calculateTypeNumber e str ?ec (encoderCalls g) = (10, encoderCalls g @ [1..<41])"
    unfolding calculateTypeNumber_def using assms(3) by (intro probe_all_rejected) auto
  from assms(3) have "\<not> accepts e 10 ?ec str" by simp
  then obtain thrown where t: "qrcode e 10 ?ec str = Inl thrown"
    by (cases "qrcode e 10 ?ec str") (auto simp: accepts_def)
  have "generate e opts g =
          (Inl (QrcodeThrew thrown), g\<lparr>encoderCalls := encoderCalls g @ [1..<41] @ [10]\<rparr>)"
    using assms(1,2) probe t by (simp add: generate_def)
  with t show ?thesis by blast
qed

lemma overlaid_frame:
  "width (overlaid src L oo) = width src \<and> height (overlaid src L oo) = height src"
  by (simp add: overlaid_def Let_def drawLogo_frame drawLogoBackground_frame drawImage_def
        set_width_def set_height_def)

lemma addLogoOverlay_ui:
  assumes "addLogoOverlay e b s oo w = (res, w')"
  shows "ui_displayed w' = ui_displayed w \<and> ui_errors w' = ui_errors w \<and>
         state_animatedGIFBlob w' = state_animatedGIFBlob w \<and>
         state_currentLogo w' = state_currentLogo w \<and> qrGenerator w' = qrGenerator w"
  using assms
  by (auto simp: addLogoOverlay_def createElement_def on_element_def Let_def
        split: option.splits if_splits sum.splits)

lemma qrGenerator_generate_ui:
  assumes "qrGenerator_generate e config w = (res, w')"
  shows "ui_displayed w' = ui_displayed w \<and> ui_errors w' = ui_errors w \<and>
         state_animatedGIFBlob w' = state_animatedGIFBlob w \<and>
         state_currentLogo w' = state_currentLogo w \<and>
         elements w' = elements w \<and> nextElement w' = nextElement w"
  using assms by (auto simp: qrGenerator_generate_def split: prod.splits sum.splits)

lemma processFrames_ui:
  "processFrames e config i n fs acc w = (res, w') \<Longrightarrow>
     ui_displayed w' = ui_displayed w \<and> ui_errors w' = ui_errors w \<and>
     state_animatedGIFBlob w' = state_animatedGIFBlob w \<and>
     state_currentLogo w' = state_currentLogo w"
proof (induction fs arbitrary: i acc w)
  case Nil
  then show ?case by simp
next
  case (Cons f fs)
  obtain cs ds where acc: "acc = (cs, ds)" by (cases acc)
  let ?w0 = "showLoadingMessage (ProcessingFrame (i + 1) n) w"
  have u0: "ui_displayed ?w0 = ui_displayed w" "ui_errors ?w0 = ui_errors w"
           "state_animatedGIFBlob ?w0 = state_animatedGIFBlob w"
           "state_currentLogo ?w0 = state_currentLogo w"
    by (simp_all add: showLoadingMessage_def)
  obtain r1 w1 where g: "qrGenerator_generate e config ?w0 = (r1, w1)"
    by (cases "qrGenerator_generate e config ?w0")
  note u1 = qrGenerator_generate_ui [OF g]
  show ?case
  proof (cases r1)
    case (Inl err)
    with Cons.prems g acc have "w' = w1" by simp
    with u0 u1 show ?thesis by simp
  next
    case (Inr qrc)
    let ?w2 = "w1\<lparr>elements := (elements w1)(nextElement w1 := imageDataCanvas (imageData f)),
                   nextElement := nextElement w1 + 1\<rparr>"
    let ?url = "toDataURL e (deref ?w2 (Element (nextElement w1)))"
    obtain r3 w3 where a: "addLogoOverlay e (Some qrc) (Some ?url) (logoOverlayOptions config) ?w2
                             = (r3, w3)"
      by (cases "addLogoOverlay e (Some qrc) (Some ?url) (logoOverlayOptions config) ?w2")
    note u3 = addLogoOverlay_ui [OF a]
    show ?thesis
    proof (cases r3)
      case (Inl err)
      with Cons.prems g Inr a acc have "w' = w3" by (simp add: imageDataToCanvas_eq)
      with u0 u1 u3 show ?thesis by simp
    next
      case fin: (Inr finalCanvas)
      with Cons.prems g Inr a acc
      have "processFrames e config (i + 1) n fs (cs @ [finalCanvas], ds @ [Some (delay f)]) w3
              = (res, w')"
        by (simp add: imageDataToCanvas_eq)
      from Cons.IH [OF this] u0 u1 u3 show ?thesis by simp
    qed
  qed
qed

lemma processFrames_generate_fails:
  assumes "fst (generate e config g0) = Inl err"
  shows "fst (processFrames e config i n (f # fs) acc w) = Inl err"
proof -
  obtain cs ds where acc: "acc = (cs, ds)" by (cases acc)
  let ?w0 = "showLoadingMessage (ProcessingFrame (i + 1) n) w"
  have "fst (generate e config (qrGenerator ?w0)) = Inl err"
    using assms generate_fst_indep [of e config "qrGenerator ?w0" g0] by simp
  then have "fst (qrGenerator_generate e config ?w0) = Inl err"
    by (auto simp: qrGenerator_generate_def split: prod.splits sum.splits)
  then show ?thesis
    unfolding acc by (auto split: prod.splits sum.splits)
qed

lemma animatedPath_Inl_ui:
  assumes "fst (animatedPath e config w) = Inl err"
  shows "ui_displayed (snd (animatedPath e config w)) = ui_displayed w \<and>
         ui_errors (snd (animatedPath e config w)) = ui_errors w \<and>
         state_currentLogo (snd (animatedPath e config w)) = state_currentLogo w"
proof (cases "\<not> hasGifuct e \<or> \<not> hasGIF e")
  case True
  then show ?thesis by (auto simp: animatedPath_def)
next
  case libs: False
  let ?w0 = "showLoadingMessage ProcessingGIF w"
  have u0: "ui_displayed ?w0 = ui_displayed w" "ui_errors ?w0 = ui_errors w"
           "state_currentLogo ?w0 = state_currentLogo w"
    by (simp_all add: showLoadingMessage_def)
  show ?thesis
  proof (cases "parseGIF e (state_currentLogo w)")
    case (Inl perr)
    with libs u0 show ?thesis by (simp add: animatedPath_def Let_def)
  next
    case (Inr frames)
    obtain r1 w1 where pf: "processFrames e config 0 (length frames) frames ([], []) ?w0 = (r1, w1)"
      by (cases "processFrames e config 0 (length frames) frames ([], []) ?w0")
    note u1 = processFrames_ui [OF pf]
    let ?w2 = "showLoadingMessage CreatingGIF w1"
    have u2: "ui_displayed ?w2 = ui_displayed w1" "ui_errors ?w2 = ui_errors w1"
             "state_currentLogo ?w2 = state_currentLogo w1"
      by (simp_all add: showLoadingMessage_def)
    from assms libs u0 Inr pf u1 u2 show ?thesis
      by (auto simp: animatedPath_def Let_def split: sum.splits prod.splits)
  qed
qed

lemma animatedPath_generate_fails:
  assumes "fst (generate e config g0) = Inl err"
  shows "\<exists>err'. fst (animatedPath e config w) = Inl err'"
proof (cases "fst (animatedPath e config w)")
  case (Inl err')
  then show ?thesis by blast
next
  case (Inr u)
  then have "animatedPath e config w = (Inr u, snd (animatedPath e config w))"
    by (simp add: prod_eq_iff)
  from animatedPath_Inr [OF this] obtain frames cs ds w1
    where p: "parseGIF e (state_currentLogo w) = Inr frames"
      and pf: "processFrames e config 0 (length frames) frames ([], [])
              (showLoadingMessage ProcessingGIF w) = (Inr (cs, ds), w1)" by blast
  from parseGIF_Inr [OF p] obtain f fs where "frames = f # fs" by (cases frames) auto
  with pf processFrames_generate_fails [OF assms, of 0 "length frames" f fs "([], [])"
        "showLoadingMessage ProcessingGIF w"]
  show ?thesis by simp
qed

lemma generateAnimatedQR_generate_fails:
  assumes "fst (generate e config g0) = Inl err"
  shows "fst (generateAnimatedQR e config w) = Inl err \<and>
         ui_displayed (snd (generateAnimatedQR e config w)) = ui_displayed w"
proof -
  from animatedPath_generate_fails [OF assms] obtain err'
    where f: "fst (animatedPath e config w) = Inl err'" by blast
  let ?w1 = "snd (animatedPath e config w)"
  let ?w2 = "showError (FailedToProcessAnimatedGIF err') ?w1"
  have u: "ui_displayed ?w2 = ui_displayed w"
    using animatedPath_Inl_ui [OF f] by (simp add: showError_def)
  have "fst (generate e config (qrGenerator ?w2)) = Inl err"
    using assms generate_fst_indep [of e config "qrGenerator ?w2" g0] by simp
  then obtain g1 where "generate e config (qrGenerator ?w2) = (Inl err, g1)"
    by (cases "generate e config (qrGenerator ?w2)") auto
  then have "generateStaticQR e config ?w2 = (Inl err, ?w2\<lparr>qrGenerator := g1\<rparr>)"
    by (simp add: generateStaticQR_def qrGenerator_generate_def)
  moreover have "generateAnimatedQR e config w = generateStaticQR e config ?w2"
    using f by (auto simp: generateAnimatedQR_def split: prod.splits sum.splits)
  ultimately show ?thesis using u by simp
qed

lemma displayQR_succeeds:
  assumes "0 < width (deref w r)" and "0 < height (deref w r)"
  shows "displayQR (Some r) w =
           (Inr (), w\<lparr>ui_currentCanvas := Some r,
                      ui_displayed := ShowsCanvas
                        \<lparr>width = width (deref w r), height = height (deref w r),
                         fillStyle = ''#000000'',
                         calls = [ClearRect 0 0 (real (width (deref w r))) (real (height (deref w r))),
                                  DrawImage (snapshot (deref w r)) 0 0
                                    (real (width (deref w r))) (real (height (deref w r)))]\<rparr>\<rparr>)"
  using assms
  by (simp add: displayQR_def Let_def drawCanvas_def drawImage_def clearRect_def set_width_def
        set_height_def createElement_canvas_def)

lemma generateStaticQR_succeeds:
  assumes "fst (generate e config g0) = Inr c" and "0 < size_px config"
  shows "\<exists>w' shown final.
           generateStaticQR e config w = (Inr (), w') \<and>
           state_animatedGIFBlob w' = None \<and>
           ui_displayed w' = ShowsCanvas shown \<and>
           width shown = size_px config \<and> height shown = size_px config \<and>
           calls shown = [ClearRect 0 0 (real (size_px config)) (real (size_px config)),
                          DrawImage (snapshot final) 0 0 (real (size_px config)) (real (size_px config))] \<and>
           (final = c \<or> (\<exists>L. final = overlaid c L (logoOverlayOptions config))) \<and>
           set (ui_errors w) \<subseteq> set (ui_errors w')"
proof -
  let ?oo = "logoOverlayOptions config"
  from qrGenerator_generate_succeeds [OF assms(1), of w] obtain g1
    where g: "qrGenerator_generate e config w = (Inr GeneratorCanvas, w\<lparr>qrGenerator := g1\<rparr>)"
      and c: "canvas g1 = c" "width c = size_px config" "height c = size_px config" by blast
  let ?w1 = "w\<lparr>qrGenerator := g1\<rparr>"
  have plain: "\<And>w3. qrGenerator w3 = g1 \<Longrightarrow> set (ui_errors w) \<subseteq> set (ui_errors w3) \<Longrightarrow>
        displayQR (Some GeneratorCanvas) w3 = (Inr (), w3\<lparr>ui_currentCanvas := Some GeneratorCanvas,
                      ui_displayed := ShowsCanvas
                        \<lparr>width = size_px config, height = size_px config, fillStyle = ''#000000'',
                         calls = [ClearRect 0 0 (real (size_px config)) (real (size_px config)),
                                  DrawImage (snapshot c) 0 0
                                    (real (size_px config)) (real (size_px config))]\<rparr>\<rparr>)"
    using c assms(2) by (subst displayQR_succeeds) simp_all
  show ?thesis
  proof (cases "truthy (state_currentLogo ?w1)")
    case False
    from plain [of ?w1] have "displayQR (Some GeneratorCanvas) ?w1 = (Inr (), ?w1\<lparr>ui_currentCanvas := Some GeneratorCanvas,
                      ui_displayed := ShowsCanvas
                        \<lparr>width = size_px config, height = size_px config, fillStyle = ''#000000'',
                         calls = [ClearRect 0 0 (real (size_px config)) (real (size_px config)),
                                  DrawImage (snapshot c) 0 0
                                    (real (size_px config)) (real (size_px config))]\<rparr>\<rparr>)"
      by simp
    with g False show ?thesis by (auto simp: generateStaticQR_def intro!: exI [of _ c])
  next
    case True
    obtain r2 w2 where a: "addLogoOverlay e (Some GeneratorCanvas) (state_currentLogo ?w1) ?oo ?w1 = (r2, w2)"
      by (cases "addLogoOverlay e (Some GeneratorCanvas) (state_currentLogo ?w1) ?oo ?w1")
    note u2 = addLogoOverlay_ui [OF a]
    show ?thesis
    proof (cases r2)
      case (Inl err)
      let ?w3 = "showError FailedToAddLogo w2"
      have q3: "qrGenerator ?w3 = g1" using u2 by (simp add: showError_def)
      have e3: "set (ui_errors w) \<subseteq> set (ui_errors ?w3)" using u2 by (auto simp: showError_def)
      from plain [OF q3 e3] g True a Inl e3 show ?thesis
        by (auto simp: generateStaticQR_def intro!: exI [of _ c])
    next
      case (Inr out)
      have al: "allocated ?w1 GeneratorCanvas" by simp
      from addLogoOverlay_Inr [OF a [unfolded Inr] al] obtain L
        where out: "out = Element (nextElement ?w1)"
          and w2: "w2 = ?w1\<lparr>elements := (elements ?w1)(nextElement ?w1 :=
                             overlaid (deref ?w1 GeneratorCanvas) L ?oo),
                           nextElement := nextElement ?w1 + 1\<rparr>" by blast
      have d: "deref w2 out = overlaid c L ?oo" using out w2 c by simp
      have dims: "width (deref w2 out) = size_px config" "height (deref w2 out) = size_px config"
        using d c by (simp_all add: overlaid_frame)
      have "displayQR (Some out) w2 =
           (Inr (), w2\<lparr>ui_currentCanvas := Some out,
                      ui_displayed := ShowsCanvas
                        \<lparr>width = size_px config, height = size_px config, fillStyle = ''#000000'',
                         calls = [ClearRect 0 0 (real (size_px config)) (real (size_px config)),
                                  DrawImage (snapshot (overlaid c L ?oo)) 0 0
                                    (real (size_px config)) (real (size_px config))]\<rparr>\<rparr>)"
        using dims assms(2) d by (subst displayQR_succeeds) simp_all
      moreover have "ui_errors w2 = ui_errors w" using u2 by simp
      ultimately show ?thesis
        using g True a Inr by (auto simp: generateStaticQR_def)
    qed
  qed
qed

lemma animatedPath_render_fails:
  assumes "hasGifuct e" and "hasGIF e"
    and "parseGIF e (state_currentLogo w) = Inr frames"
    and "fst (generate e config g0) = Inl err"
  shows "fst (animatedPath e config w) = Inl err"
proof -
  let ?w0 = "showLoadingMessage ProcessingGIF w"
  have lg: "state_currentLogo ?w0 = state_currentLogo w" by (simp add: showLoadingMessage_def)
  from parseGIF_Inr [OF assms(3)] obtain f fs where fr: "frames = f # fs" by (cases frames) auto
  have "fst (processFrames e config 0 (length frames) frames ([], []) ?w0) = Inl err"
    unfolding fr by (rule processFrames_generate_fails [OF assms(4)])
  with assms(1,2,3) lg show ?thesis
    by (auto simp: animatedPath_def Let_def split: prod.splits sum.splits)
qed

lemma sample_generate_static:
  "fst (generate sample_env sample_options g) = Inr (renderToCanvas (sample_qr 3) sample_options (canvas g))"
proof -
  have "calculateTypeNumber sample_env ''hello'' ''H'' (encoderCalls g) = (3, encoderCalls g @ [1, 2, 3])"
    by (simp add: calculateTypeNumber_def calculateTypeNumber_from.simps sample_env_def)
  then show ?thesis
    by (simp add: generate_def Let_def sample_options_def sample_env_def)
qed

lemma strict_generate:
  "fst (generate strict_env long_config g) = Inl (QrcodeThrew ''code length overflow'')"
proof -
  have t: "text_opt long_config = Some (replicate 1300 (CHR ''a''))"
    by (simp add: long_config_def)
  have ne: "replicate 1300 (CHR ''a'') \<noteq> []" by simp
  have rej: "\<forall>t. 1 \<le> t \<and> t \<le> 40 \<longrightarrow>
      \<not> accepts strict_env t (errorCorrection long_config) (replicate 1300 (CHR ''a''))"
    by (simp add: accepts_def strict_env_def)
  from generate_all_rejected [OF t ne rej, of g] show ?thesis
    by (auto simp: strict_env_def)
qed

lemma strict_parseGIF:
  "parseGIF strict_env (state_currentLogo gif_world) =
     Inr [\<lparr>imageData = wide_logo, delay = 100\<rparr>, \<lparr>imageData = wide_logo, delay = 150\<rparr>,
          \<lparr>imageData = wide_logo, delay = 100\<rparr>]"
  by (simp add: parseGIF_def gif_world_def new_world_def strict_env_def anim_env_def logo_env_def
        sample_env_def base64_of_def truthy_def or_default_def)

text \<open>
  Claim C6, as the code has it. Whatever fails inside the animated path,
  \<open>generateAnimatedQR\<close> reports the failure and runs the static path. Provided the QR code
  itself can be generated for the configuration (the encoder accepts the text and the size
  is positive), no error reaches the caller: the page shows the encoded animation when the
  animated path completed, and otherwise a single static QR code of the requested size, with
  the logo overlaid as a still image or without it when that overlay fails.
\<close>

theorem animated_failure_falls_back_to_static:
  assumes "fst (generate e config (qrGenerator w)) = Inr c" and "0 < size_px config"
  shows "\<exists>w'. generateAnimatedQR e config w = (Inr (), w') \<and>
           (case fst (animatedPath e config w) of
              Inr u \<Rightarrow> (\<exists>url. ui_displayed w' = ShowsGIF url)
            | Inl err \<Rightarrow>
                FailedToProcessAnimatedGIF err \<in> set (ui_errors w') \<and>
                state_animatedGIFBlob w' = None \<and>
                (\<exists>shown final.
                   ui_displayed w' = ShowsCanvas shown \<and>
                   width shown = size_px config \<and> height shown = size_px config \<and>
                   calls shown =
                     [ClearRect 0 0 (real (size_px config)) (real (size_px config)),
                      DrawImage (snapshot final) 0 0 (real (size_px config)) (real (size_px config))] \<and>
                   (final = c \<or> (\<exists>L. final = overlaid c L (logoOverlayOptions config)))))"
proof (cases "fst (animatedPath e config w)")
  case (Inr u)
  then have ap: "animatedPath e config w = (Inr u, snd (animatedPath e config w))"
    by (simp add: prod_eq_iff)
  from animatedPath_Inr [OF ap] obtain url
    where "ui_displayed (snd (animatedPath e config w)) = ShowsGIF url"
    by (auto simp: displayAnimatedGIF_def)
  moreover have "generateAnimatedQR e config w = (Inr (), snd (animatedPath e config w))"
    using Inr by (auto simp: generateAnimatedQR_def split: prod.splits sum.splits)
  ultimately show ?thesis using Inr by auto
next
  case (Inl err)
  let ?w2 = "showError (FailedToProcessAnimatedGIF err) (snd (animatedPath e config w))"
  have ga: "generateAnimatedQR e config w = generateStaticQR e config ?w2"
    using Inl by (auto simp: generateAnimatedQR_def split: prod.splits sum.splits)
  have noted: "FailedToProcessAnimatedGIF err \<in> set (ui_errors ?w2)"
    by (simp add: showError_def)
  from generateStaticQR_succeeds [OF assms, of ?w2] obtain w' shown final
    where "generateStaticQR e config ?w2 = (Inr (), w')"
      and "state_animatedGIFBlob w' = None"
      and "ui_displayed w' = ShowsCanvas shown"
      and "width shown = size_px config" "height shown = size_px config"
      and "calls shown = [ClearRect 0 0 (real (size_px config)) (real (size_px config)),
                          DrawImage (snapshot final) 0 0 (real (size_px config)) (real (size_px config))]"
      and "final = c \<or> (\<exists>L. final = overlaid c L (logoOverlayOptions config))"
      and "set (ui_errors ?w2) \<subseteq> set (ui_errors w')" by blast
  with ga noted Inl show ?thesis by auto
qed

theorem animated_failure_falls_back_to_static_witness:
  "fst (generate sample_env sample_options (qrGenerator gif_world)) =
     Inr (renderToCanvas (sample_qr 3) sample_options createElement_canvas) \<and>
   0 < size_px sample_options \<and>
   fst (animatedPath sample_env sample_options gif_world) = Inl GifLibrariesNotLoaded \<and>
   fst (generateAnimatedQR sample_env sample_options gif_world) = Inr () \<and>
   (\<exists>shown. ui_displayed (snd (generateAnimatedQR sample_env sample_options gif_world))
              = ShowsCanvas shown \<and> width shown = 512 \<and> height shown = 512)"
proof -
  have h1: "fst (generate sample_env sample_options (qrGenerator gif_world)) =
     Inr (renderToCanvas (sample_qr 3) sample_options createElement_canvas)"
    using sample_generate_static [of "qrGenerator gif_world"]
    by (simp add: gif_world_def new_world_def new_QRGenerator_def)
  have h2: "0 < size_px sample_options" by (simp add: sample_options_def)
  have sz: "size_px sample_options = 512" by (simp add: sample_options_def)
  have f: "fst (animatedPath sample_env sample_options gif_world) = Inl GifLibrariesNotLoaded"
    by (simp add: animatedPath_def sample_env_def)
  from animated_failure_falls_back_to_static [OF h1 h2] f sz
  have "fst (generateAnimatedQR sample_env sample_options gif_world) = Inr () \<and>
   (\<exists>shown. ui_displayed (snd (generateAnimatedQR sample_env sample_options gif_world))
              = ShowsCanvas shown \<and> width shown = 512 \<and> height shown = 512)"
    by auto
  with h1 h2 f show ?thesis by simp
qed

text \<open>
  The claim as stated also covers a failure to render a frame. There the static path fails
  in the same way: with a text of 1300 characters, which passes \<open>validateInput\<close> and
  which the encoder rejects at every type number, the error reaches \<open>generateQR\<close> and the
  page still shows the placeholder.
\<close>

theorem animated_render_failure_counterexample:
  "validateInput long_config = None \<and>
   state_isAnimatedGIF gif_world \<and> truthy (state_currentLogo gif_world) \<and>
   ui_displayed gif_world = Placeholder \<and>
   fst (animatedPath strict_env long_config gif_world) = Inl (QrcodeThrew ''code length overflow'') \<and>
   fst (generateAnimatedQR strict_env long_config gif_world)
     = Inl (QrcodeThrew ''code length overflow'') \<and>
   ui_displayed (snd (generateAnimatedQR strict_env long_config gif_world)) = Placeholder \<and>
   ui_displayed (generateQR strict_env long_config gif_world) = Placeholder"
proof -
  let ?err = "QrcodeThrew ''code length overflow''"
  have v: "validateInput long_config = None"
    by (simp add: validateInput_def long_config_def truthy_def)
  have s: "state_isAnimatedGIF gif_world" "truthy (state_currentLogo gif_world)"
          "ui_displayed gif_world = Placeholder"
    by (simp_all add: gif_world_def new_world_def truthy_def)
  have libs: "hasGifuct strict_env" "hasGIF strict_env"
    by (simp_all add: strict_env_def anim_env_def)
  have ap: "fst (animatedPath strict_env long_config gif_world) = Inl ?err"
    by (rule animatedPath_render_fails [OF libs strict_parseGIF strict_generate])
  note ga = generateAnimatedQR_generate_fails [OF strict_generate, where w = gif_world]
  let ?w0 = "showLoading gif_world"
  note gl = generateAnimatedQR_generate_fails [OF strict_generate, where w = ?w0]
  have s0: "state_isAnimatedGIF ?w0" "truthy (state_currentLogo ?w0)"
           "ui_displayed ?w0 = Placeholder"
    using s by (simp_all add: showLoading_def)
  have "ui_displayed (generateQR strict_env long_config gif_world) = Placeholder"
    using v s gl s0
    by (auto simp: generateQR_def hideLoading_def showError_def split: prod.splits sum.splits)
  with v s ap ga show ?thesis by simp
qed

end
